theory Spec2Isabelle
  imports Main "HOL-Library.Word"
begin

section \<open>JavaScript values and built-ins used by the program\<close>

text \<open>
  A JavaScript string is a sequence of UTF-16 code units; \<open>length\<close>, \<open>substring\<close>
  and \<open>charCodeAt\<close> count code units. A character outside the Basic Multilingual
  Plane is a surrogate pair, that is two code units.
\<close>

type_synonym jstring = "16 word list"

abbreviation js :: "string \<Rightarrow> jstring" where
  "js s \<equiv> map of_char s"

text \<open>Exceptions that the modelled code can meet.\<close>

datatype js_exn =
    SyntaxError   \<comment> \<open>thrown by \<open>JSON.parse\<close> on text that is not JSON\<close>
  | TypeError     \<comment> \<open>a property of \<open>null\<close> is read, or a non-function is called\<close>
  | DOMException  \<comment> \<open>thrown by \<open>localStorage\<close> (quota exceeded, access denied)\<close>

text \<open>The values \<open>JSON.parse\<close> can return. Numbers are kept as integers: only the
  kind of the value matters to the code.\<close>

datatype json =
    JNull
  | JBool bool
  | JNum int
  | JStr jstring
  | JArr "json list"
  | JObj "(jstring \<times> json) list"

text \<open>
  The browser's \<open>window.localStorage\<close> and the \<open>JSON\<close> object are not code of the
  repository: they are parameters of the model. \<open>'st\<close> is the state of the storage;
  \<open>Inl\<close> is a thrown exception; \<open>getItem\<close> returns \<open>None\<close> for JavaScript's \<open>null\<close>.
\<close>

record 'st platform =
  getItem :: "jstring \<Rightarrow> 'st \<Rightarrow> js_exn + jstring option"
  setItem :: "jstring \<Rightarrow> jstring \<Rightarrow> 'st \<Rightarrow> js_exn + 'st"
  JSON_parse :: "jstring \<Rightarrow> js_exn + json"
  JSON_stringify :: "jstring list \<Rightarrow> jstring"

text \<open>\<open>xs[i]\<close>: reading an array outside its range gives \<open>undefined\<close> (\<open>None\<close>).\<close>

definition js_at :: "'a list \<Rightarrow> int \<Rightarrow> 'a option" where
  "js_at xs i = (if 0 \<le> i \<and> i < int (length xs) then Some (xs ! nat i) else None)"

text \<open>The same for an array whose elements may themselves be \<open>undefined\<close>.\<close>

definition tmp_at :: "'a option list \<Rightarrow> int \<Rightarrow> 'a option" where
  "tmp_at ts i = (case js_at ts i of None \<Rightarrow> None | Some v \<Rightarrow> v)"

text \<open>\<open>xs[i] = v\<close> for \<open>i \<ge> 0\<close>: writing past the end extends the array with holes.\<close>

definition js_set :: "'a option list \<Rightarrow> nat \<Rightarrow> 'a \<Rightarrow> 'a option list" where
  "js_set ts i v =
     (if i < length ts then ts[i := Some v]
      else ts @ replicate (i - length ts) None @ [Some v])"

text \<open>\<open>a ?? b\<close>: the right operand replaces \<open>undefined\<close> only (an empty string stays).\<close>

definition nullish :: "'a option \<Rightarrow> 'a option \<Rightarrow> 'a option" where
  "nullish a b = (case a of Some v \<Rightarrow> Some v | None \<Rightarrow> b)"

text \<open>\<open>String.prototype.trim\<close> removes ECMAScript white space and line terminators
  from both ends.\<close>

definition is_js_space :: "16 word \<Rightarrow> bool" where
  "is_js_space c =
     (c = 0x09 \<or> c = 0x0A \<or> c = 0x0B \<or> c = 0x0C \<or> c = 0x0D \<or> c = 0x20 \<or> c = 0xA0
      \<or> c = 0x1680 \<or> (0x2000 \<le> c \<and> c \<le> 0x200A) \<or> c = 0x2028 \<or> c = 0x2029
      \<or> c = 0x202F \<or> c = 0x205F \<or> c = 0x3000 \<or> c = 0xFEFF)"

definition trim :: "jstring \<Rightarrow> jstring" where
  "trim s = rev (dropWhile is_js_space (rev (dropWhile is_js_space s)))"

text \<open>\<open>s.substring(a, b)\<close>: both indices are clamped to the string and swapped when
  \<open>a > b\<close>; \<open>s.substring(a)\<close> runs to the end.\<close>

definition substring :: "jstring \<Rightarrow> int \<Rightarrow> int \<Rightarrow> jstring" where
  "substring s a b =
     (let n = int (length s);
          a' = max 0 (min a n);
          b' = max 0 (min b n)
      in take (nat (max a' b' - min a' b')) (drop (nat (min a' b')) s))"

definition substring_from :: "jstring \<Rightarrow> int \<Rightarrow> jstring" where
  "substring_from s a = substring s a (int (length s))"


section \<open>The history store (class HistoryController)\<close>

text \<open>
  The fields of the class. \<open>size\<close> and \<open>cursor\<close> are suffixed, the controller below
  has a \<open>cursor\<close> of its own. \<open>size_h\<close> is an integer: the code accepts any number
  and never checks it. The browse cursor is only ever assigned \<open>entries.length\<close>,
  decremented under \<open>cursor > 0\<close> and incremented, so it is a natural number.
  \<open>entries\<close> follows the declared type \<open>string[]\<close>.
\<close>

record HistoryController =
  size_h :: int
  persistent :: "jstring option"
  entries :: "jstring list"
  temporaries :: "jstring option list"
  cursor_h :: nat

definition resetCursor :: "HistoryController \<Rightarrow> HistoryController" where
  "resetCursor h =
     h\<lparr>cursor_h := length (entries h),
       temporaries := map (\<lambda>_. None) (entries h) @ [None]\<rparr>"

text \<open>
  The value the constructor assigns to \<open>this.entries\<close>: \<open>[]\<close>, replaced by the parsed
  item when a key is configured and neither \<open>getItem\<close> nor \<open>JSON.parse\<close> throws
  (\<open>getItem(..) ?? ""\<close> turns a missing item into the empty text).
\<close>

definition loadEntries :: "'st platform \<Rightarrow> jstring option \<Rightarrow> 'st \<Rightarrow> json" where
  "loadEntries P key st =
     (case key of
        None \<Rightarrow> JArr []
      | Some k \<Rightarrow>
          (case getItem P k st of
             Inl _ \<Rightarrow> JArr []
           | Inr item \<Rightarrow>
               (case JSON_parse P (case item of None \<Rightarrow> [] | Some s \<Rightarrow> s) of
                  Inl _ \<Rightarrow> JArr []
                | Inr v \<Rightarrow> v)))"

fun as_strings :: "json list \<Rightarrow> jstring list option" where
  "as_strings [] = Some []"
| "as_strings (JStr s # vs) = (case as_strings vs of Some ss \<Rightarrow> Some (s # ss) | None \<Rightarrow> None)"
| "as_strings (_ # vs) = None"

text \<open>
  What \<open>new HistoryController(size, persistent)\<close> does. \<open>resetCursor\<close> runs outside
  the \<open>try\<close> and calls \<open>this.entries.map\<close>: on a parsed value that is not an array
  \<open>map\<close> is not a function (and \<open>null\<close> has no properties), so a \<open>TypeError\<close> leaves
  the constructor. An array whose elements are not all strings is stored as it is;
  the object then breaks its declared type and the rest of the model does not
  follow it further.
\<close>

datatype constructed =
    Built HistoryController
  | BuiltUntyped "json list"
  | ConstructorThrew js_exn

definition HistoryController_constructor ::
  "'st platform \<Rightarrow> int \<Rightarrow> jstring option \<Rightarrow> 'st \<Rightarrow> constructed" where
  "HistoryController_constructor P sz key st =
     (case loadEntries P key st of
        JArr vs \<Rightarrow>
          (case as_strings vs of
             Some es \<Rightarrow>
               Built (resetCursor \<lparr>size_h = sz, persistent = key, entries = es,
                                   temporaries = [], cursor_h = 0\<rparr>)
           | None \<Rightarrow> BuiltUntyped vs)
      | _ \<Rightarrow> ConstructorThrew TypeError)"

text \<open>
  \<open>rewind(newEntry)\<close>. The result is the exception that left the call, if any, with
  the object and the storage as the call left them: the push and the splice have
  already happened when \<open>setItem\<close> throws, and \<open>resetCursor\<close> has not.
  \<open>entries.splice(0, n)\<close> removes the first \<open>n\<close> entries (all of them when \<open>n\<close> is
  larger than the array).
\<close>

definition rewind ::
  "'st platform \<Rightarrow> jstring option \<Rightarrow> HistoryController \<times> 'st
     \<Rightarrow> js_exn option \<times> HistoryController \<times> 'st" where
  "rewind P newEntry hs =
     (case hs of (h, st) \<Rightarrow>
       (case newEntry of
          None \<Rightarrow> (None, resetCursor h, st)
        | Some e \<Rightarrow>
            if trim e \<noteq> [] \<and> Some e \<noteq> js_at (entries h) (int (length (entries h)) - 1)
            then
              let pushed = entries h @ [e];
                  es = (if int (length pushed) > size_h h
                        then drop (nat (int (length pushed) - size_h h)) pushed
                        else pushed);
                  h1 = h\<lparr>entries := es\<rparr>
              in (case persistent h of
                    None \<Rightarrow> (None, resetCursor h1, st)
                  | Some key \<Rightarrow>
                      (case setItem P key (JSON_stringify P es) st of
                         Inl ex \<Rightarrow> (Some ex, h1, st)
                       | Inr st' \<Rightarrow> (None, resetCursor h1, st')))
            else (None, resetCursor h, st)))"

definition getPrevious :: "jstring \<Rightarrow> HistoryController \<Rightarrow> jstring option \<times> HistoryController" where
  "getPrevious current h =
     (let ts = js_set (temporaries h) (cursor_h h) current;
          entry = nullish (tmp_at ts (int (cursor_h h) - 1))
                          (js_at (entries h) (int (cursor_h h) - 1))
      in (entry,
          h\<lparr>temporaries := ts,
            cursor_h := (if cursor_h h > 0 then cursor_h h - 1 else cursor_h h)\<rparr>))"

definition getNext :: "jstring \<Rightarrow> HistoryController \<Rightarrow> jstring option \<times> HistoryController" where
  "getNext current h =
     (let ts = js_set (temporaries h) (cursor_h h) current;
          entry = nullish (tmp_at ts (int (cursor_h h) + 1))
                          (js_at (entries h) (int (cursor_h h) + 1))
      in (entry,
          h\<lparr>temporaries := ts,
            cursor_h := (if cursor_h h < length (entries h) then cursor_h h + 1 else cursor_h h)\<rparr>))"

section \<open>The input controller (class TerminalController)\<close>

text \<open>\<open>input.replace(/\r\n|\n/g, "\r")\<close>: a carriage return followed by a newline, or
  a newline alone, becomes one carriage return.\<close>

fun normalizeInput :: "jstring \<Rightarrow> jstring" where
  "normalizeInput [] = []"
| "normalizeInput [c] = (if c = 0x0A then [0x0D] else [c])"
| "normalizeInput (c # d # cs) =
     (if c = 0x0D \<and> d = 0x0A then 0x0D # normalizeInput cs
      else if c = 0x0A then 0x0D # normalizeInput (d # cs)
      else c # normalizeInput (d # cs))"

text \<open>\<open>for (const char of s)\<close> walks the string by code points: a high surrogate
  followed by a low surrogate is one \<open>char\<close> of length 2, any other code unit is a
  \<open>char\<close> of length 1.\<close>

definition is_high_surrogate :: "16 word \<Rightarrow> bool" where
  "is_high_surrogate c = (0xD800 \<le> c \<and> c \<le> 0xDBFF)"

definition is_low_surrogate :: "16 word \<Rightarrow> bool" where
  "is_low_surrogate c = (0xDC00 \<le> c \<and> c \<le> 0xDFFF)"

fun code_points :: "jstring \<Rightarrow> jstring list" where
  "code_points [] = []"
| "code_points [a] = [[a]]"
| "code_points (a # b # cs) =
     (if is_high_surrogate a \<and> is_low_surrogate b then [a, b] # code_points cs
      else [a] # code_points (b # cs))"

text \<open>An entry of the pending-input queue: \<open>{ input: string; execute: boolean }\<close>.\<close>

datatype InputBufferEntry = InputBufferEntry (entry_input: jstring) (execute: bool)

text \<open>
  What the controller does to the outside, in the order it does it: a
  \<open>terminal.write(data, ..)\<close>, a call of the application's handler, a \<open>console.log\<close>,
  and an exception that leaves the \<open>onData\<close> callback.
\<close>

datatype effect =
    TermWrite jstring
  | HandlerCall jstring
  | ConsoleLog jstring
  | Uncaught js_exn

text \<open>
  What the controller reads from the outside during one callback: the text the
  prompt function returns, and the terminal's active buffer (\<open>cursorX\<close>, \<open>cursorY\<close>,
  and \<open>getLine(y)?.isWrapped\<close>, false for a missing line). The terminal applies
  writes later, so the buffer does not change while a callback runs, and no
  callback renders more than once.
\<close>

record env =
  promptText :: jstring
  cursorX :: nat
  cursorY :: nat
  isWrapped :: "nat \<Rightarrow> bool"

text \<open>
  The asynchronous functions \<open>startInputPhase\<close> and \<open>run\<close> stop at each \<open>await\<close> and
  go on when the awaited work is done. \<open>pending\<close> says where the one chain of
  such calls is suspended: after \<open>await this.write("")\<close>, after \<open>await promise\<close> in
  the drain loop, or in \<open>await this.handler(input)\<close>. The last \<open>await\<close> of
  \<open>startInputPhase\<close> has nothing after it. A new chain starts only from \<open>pushInput\<close>
  in the live phase, when no chain is suspended.
\<close>

datatype pending = NoChain | AwaitFlush | AwaitRender | AwaitHandler

text \<open>The fields of the class, then the storage it reaches through its history, the
  suspended chain and the effects so far.\<close>

record 'st TerminalController =
  history :: HistoryController
  inputPhase :: bool
  input :: jstring
  inputBuffer :: "InputBufferEntry list"
  cursor :: int
  localStorage :: 'st
  pending :: pending
  effects :: "effect list"

text \<open>\<open>write(data)\<close>, up to its \<open>await\<close> (the name is suffixed: \<open>write\<close> is reserved).\<close>

definition write_data :: "jstring \<Rightarrow> 'st TerminalController \<Rightarrow> 'st TerminalController" where
  "write_data data c = c\<lparr>effects := effects c @ [TermWrite data]\<rparr>"

text \<open>The \<open>while\<close> loop of \<open>renderInput\<close> that counts the wrapped rows above the cursor.\<close>

function countWrapped :: "env \<Rightarrow> nat \<Rightarrow> nat" where
  "countWrapped e wrappedLines =
     (if wrappedLines < cursorY e \<and> isWrapped e (cursorY e - wrappedLines)
      then countWrapped e (Suc wrappedLines) else wrappedLines)"
  by pat_completeness auto
termination
  by (relation "measure (\<lambda>(e, w). cursorY e - w)") auto

declare countWrapped.simps [simp del]

text \<open>\<open>renderInput(newLine, completing, input)\<close>, up to its \<open>await\<close>: the writes.\<close>

definition renderInput ::
  "env \<Rightarrow> bool \<Rightarrow> bool \<Rightarrow> jstring option \<Rightarrow> 'st TerminalController \<Rightarrow> 'st TerminalController" where
  "renderInput e newLine completing inp c =
     (let c1 = (if newLine then c
                else write_data ([0x0D] @ concat (replicate (countWrapped e 0)
                                              [0x1B, 0x5B, 0x4B, 0x1B, 0x5B, 0x46])
                                   @ [0x1B, 0x5B, 0x4B]) c);
          c2 = write_data (promptText e) c1;
          c3 = (case inp of
                  None \<Rightarrow>
                    write_data (substring (input c) 0 (cursor c) @ [0x1B, 0x37]
                           @ substring_from (input c) (cursor c) @ [0x1B, 0x38]) c2
                | Some s \<Rightarrow> write_data s c2)
      in if completing then write_data [0x0D, 0x0A] c3 else c3)"

text \<open>\<open>run(input)\<close>, up to its \<open>await\<close>: the handler is called.\<close>

definition run :: "jstring \<Rightarrow> 'st TerminalController \<Rightarrow> 'st TerminalController" where
  "run inp c = c\<lparr>effects := effects c @ [HandlerCall inp], pending := AwaitHandler\<rparr>"

text \<open>\<open>startInputPhase()\<close>, up to \<open>await this.write("")\<close>.\<close>

definition startInputPhase :: "'st TerminalController \<Rightarrow> 'st TerminalController" where
  "startInputPhase c =
     (if \<not> inputPhase c then (write_data [] c)\<lparr>pending := AwaitFlush\<rparr> else c)"

text \<open>
  The drain loop of \<open>startInputPhase\<close> from \<open>this.inputBuffer.shift()\<close> to the next
  suspension: the queue is empty and the phase becomes live, or the first entry is
  rendered as a completed line and is either run or awaited.
\<close>

definition drain :: "env \<Rightarrow> 'st TerminalController \<Rightarrow> 'st TerminalController" where
  "drain e c =
     (case inputBuffer c of
        [] \<Rightarrow> (renderInput e True False None (c\<lparr>inputPhase := True\<rparr>))\<lparr>pending := NoChain\<rparr>
      | entry # rest \<Rightarrow>
          (let c1 = renderInput e True True (Some (entry_input entry)) (c\<lparr>inputBuffer := rest\<rparr>)
           in if execute entry then run (entry_input entry) c1
              else c1\<lparr>pending := AwaitRender\<rparr>))"

text \<open>\<open>startInputPhase\<close> after \<open>await this.write("")\<close>: a newline when the terminal's
  cursor is not in column 0, then the drain loop.\<close>

definition afterFlush :: "env \<Rightarrow> 'st TerminalController \<Rightarrow> 'st TerminalController" where
  "afterFlush e c = drain e (if cursorX e > 0 then write_data [0x0D, 0x0A] c else c)"

text \<open>
  \<open>pushInput(execute)\<close>. An exception of \<open>history.rewind\<close> leaves the method at its
  first statement. \<open>renderInput\<close> writes the line before \<open>this.input\<close> is cleared.
\<close>

definition pushInput ::
  "'st platform \<Rightarrow> env \<Rightarrow> bool \<Rightarrow> 'st TerminalController
     \<Rightarrow> js_exn option \<times> 'st TerminalController" where
  "pushInput P e exec c =
     (case rewind P (if exec then Some (input c) else None) (history c, localStorage c) of
        (Some ex, h', st') \<Rightarrow> (Some ex, c\<lparr>history := h', localStorage := st'\<rparr>)
      | (None, h', st') \<Rightarrow>
          (let c1 = c\<lparr>history := h', localStorage := st'\<rparr>
           in if inputPhase c1
              then (let captured = input c1;
                        c2 = renderInput e False True None (c1\<lparr>inputPhase := False\<rparr>);
                        c3 = c2\<lparr>input := [], cursor := 0\<rparr>
                    in (None, if exec then run captured c3 else startInputPhase c3))
              else (None, c1\<lparr>inputBuffer := inputBuffer c1 @ [InputBufferEntry (input c1) exec],
                              input := [], cursor := 0\<rparr>)))"

text \<open>\<open>onEscape(sequence)\<close>; it returns \<open>false\<close> on every path.\<close>

definition onEscape :: "jstring \<Rightarrow> 'st TerminalController \<Rightarrow> bool \<times> 'st TerminalController" where
  "onEscape sequence c =
     (if sequence = js ''[A'' then
        (case getPrevious (input c) (history c) of
           (Some previous, h') \<Rightarrow>
             (False, c\<lparr>history := h', input := previous, cursor := int (length previous)\<rparr>)
         | (None, h') \<Rightarrow> (False, c\<lparr>history := h'\<rparr>))
      else if sequence = js ''[B'' then
        (case getNext (input c) (history c) of
           (Some next, h') \<Rightarrow>
             (False, c\<lparr>history := h', input := next, cursor := int (length next)\<rparr>)
         | (None, h') \<Rightarrow> (False, c\<lparr>history := h'\<rparr>))
      else if sequence = js ''[D'' then
        (False, if cursor c > 0 then c\<lparr>cursor := cursor c - 1\<rparr> else c)
      else if sequence = js ''[C'' then
        (False, if cursor c < int (length (input c)) then c\<lparr>cursor := cursor c + 1\<rparr> else c)
      else if sequence = js ''[3~'' then
        (False, if cursor c < int (length (input c))
                then c\<lparr>input := substring (input c) 0 (cursor c)
                                 @ substring_from (input c) (cursor c + 1)\<rparr>
                else c)
      else (False, c\<lparr>effects := effects c @ [ConsoleLog sequence]\<rparr>))"

text \<open>
  \<open>onChar(char)\<close>. \<open>charCodeAt(0)\<close> of an empty string is \<open>NaN\<close>, which fails both
  comparisons. The result is the returned flag, or the exception that
  \<open>pushInput\<close> let through.
\<close>

definition onChar ::
  "'st platform \<Rightarrow> env \<Rightarrow> jstring \<Rightarrow> 'st TerminalController
     \<Rightarrow> (js_exn + bool) \<times> 'st TerminalController" where
  "onChar P e char c =
     (if (case char of [] \<Rightarrow> False | ord # _ \<Rightarrow> ord < 32 \<or> ord = 0x7F)
      then
        (if char = [0x0D] then
           (case pushInput P e True c of
              (Some ex, c') \<Rightarrow> (Inl ex, c')
            | (None, c') \<Rightarrow> (Inr True, c'))
         else if char = [0x7F] then
           (Inr False,
            if cursor c > 0
            then c\<lparr>input := substring (input c) 0 (cursor c - 1)
                             @ substring_from (input c) (cursor c),
                   cursor := cursor c - 1\<rparr>
            else c)
         else if char = [0x03] then
           (case pushInput P e False (c\<lparr>input := input c @ js ''^C''\<rparr>) of
              (Some ex, c') \<Rightarrow> (Inl ex, c')
            | (None, c') \<Rightarrow> (Inr True, c'))
         else (Inr False, c))
      else
        (Inr False,
         c\<lparr>input := substring (input c) 0 (cursor c) @ char
                      @ substring_from (input c) (cursor c),
           cursor := cursor c + int (length char)\<rparr>))"

text \<open>The \<open>for\<close> loop of \<open>onData\<close>; an exception ends it.\<close>

fun chars_loop ::
  "'st platform \<Rightarrow> env \<Rightarrow> jstring list \<Rightarrow> bool \<Rightarrow> 'st TerminalController
     \<Rightarrow> (js_exn + bool) \<times> 'st TerminalController" where
  "chars_loop P e [] inputPushed c = (Inr inputPushed, c)"
| "chars_loop P e (char # chars) inputPushed c =
     (case onChar P e char c of
        (Inl ex, c') \<Rightarrow> (Inl ex, c')
      | (Inr pushed, c') \<Rightarrow> chars_loop P e chars pushed c')"

definition onData ::
  "'st platform \<Rightarrow> env \<Rightarrow> jstring \<Rightarrow> 'st TerminalController
     \<Rightarrow> js_exn option \<times> 'st TerminalController" where
  "onData P e str c =
     (case (case str of
              [] \<Rightarrow> (Inr True, c)
            | first # rest \<Rightarrow>
                if first = 0x1B
                then (case onEscape rest c of (pushed, c') \<Rightarrow> (Inr pushed, c'))
                else chars_loop P e (code_points (normalizeInput str)) True c) of
        (Inl ex, c') \<Rightarrow> (Some ex, c')
      | (Inr inputPushed, c') \<Rightarrow>
          (None, if \<not> inputPushed \<and> inputPhase c'
                 then renderInput e False False None c' else c'))"

text \<open>
  The body of the constructor once \<open>new HistoryController(..)\<close> has returned \<open>h\<close>:
  the fields are initialised and \<open>startInputPhase()\<close> is called.
\<close>

definition TerminalController_constructor ::
  "HistoryController \<Rightarrow> 'st \<Rightarrow> 'st TerminalController" where
  "TerminalController_constructor h st =
     startInputPhase
       \<lparr>history = h, inputPhase = False, input = [], inputBuffer = [], cursor = 0,
        localStorage = st, pending = NoChain, effects = []\<rparr>"

text \<open>
  What can happen to a controller: the terminal delivers data or a resize, the
  awaited write is flushed, the handler's promise is fulfilled or rejected. Each
  callback runs to its end before the next one. An exception that leaves
  \<open>onData\<close> is recorded. A completion that no suspended chain waits for changes nothing.
  The public methods \<open>setPrompt\<close>, \<open>setHandler\<close>, \<open>write\<close> and \<open>writeln\<close> are
  left out: they touch neither the line buffer, the queue nor the history.
\<close>

datatype event = Data jstring | Resize | WriteFlushed | HandlerDone | HandlerFailed

definition step ::
  "'st platform \<Rightarrow> env \<Rightarrow> event \<Rightarrow> 'st TerminalController \<Rightarrow> 'st TerminalController" where
  "step P e ev c =
     (case ev of
        Data str \<Rightarrow>
          (case onData P e str c of
             (None, c') \<Rightarrow> c'
           | (Some ex, c') \<Rightarrow> c'\<lparr>effects := effects c' @ [Uncaught ex]\<rparr>)
      | Resize \<Rightarrow> (if inputPhase c then renderInput e False False None c else c)
      | WriteFlushed \<Rightarrow>
          (case pending c of
             AwaitFlush \<Rightarrow> afterFlush e c
           | AwaitRender \<Rightarrow> drain e c
           | _ \<Rightarrow> c)
      | HandlerDone \<Rightarrow>
          (case pending c of
             AwaitHandler \<Rightarrow> startInputPhase (c\<lparr>pending := NoChain\<rparr>)
           | _ \<Rightarrow> c)
      | HandlerFailed \<Rightarrow>
          (case pending c of
             AwaitHandler \<Rightarrow> c\<lparr>pending := NoChain\<rparr>
           | _ \<Rightarrow> c))"

text \<open>A run: each event comes with what the controller reads during its callback.\<close>

fun steps ::
  "'st platform \<Rightarrow> (env \<times> event) list \<Rightarrow> 'st TerminalController \<Rightarrow> 'st TerminalController" where
  "steps P [] c = c"
| "steps P ((e, ev) # evs) c = steps P evs (step P e ev c)"


text \<open>The object a finished \<open>rewind\<close> call leaves behind.\<close>

definition history_of :: "js_exn option \<times> HistoryController \<times> 'st \<Rightarrow> HistoryController" where
  "history_of r = fst (snd r)"

text \<open>\<open>this.entries[this.entries.length - 1]\<close>: the entry stored last, if any.\<close>

definition last_entry :: "HistoryController \<Rightarrow> jstring option" where
  "last_entry h = js_at (entries h) (int (length (entries h)) - 1)"

text \<open>A sequence of \<open>rewind(x)\<close> calls on the same object. A call that throws leaves
  the object as it is at the throw, and the next call goes on from there.\<close>

fun rewind_all ::
  "'st platform \<Rightarrow> jstring list \<Rightarrow> HistoryController \<times> 'st \<Rightarrow> HistoryController \<times> 'st" where
  "rewind_all P [] hs = hs"
| "rewind_all P (x # xs) hs = rewind_all P xs (snd (rewind P (Some x) hs))"


subsection \<open>The specification's vocabulary for the history log\<close>

text \<open>The most recent \<open>n\<close> elements of a list, in order.\<close>

definition keep_last :: "int \<Rightarrow> 'a list \<Rightarrow> 'a list" where
  "keep_last n xs = drop (nat (int (length xs) - n)) xs"

text \<open>
  The entries of a sequence of candidates that the specification counts as accepted:
  those that are not blank and differ from the entry accepted just before
  (\<open>prev\<close> is the last entry already in the log, if any).
\<close>

fun accepted :: "jstring option \<Rightarrow> jstring list \<Rightarrow> jstring list" where
  "accepted prev [] = []"
| "accepted prev (x # xs) =
     (if list_all is_js_space x \<or> prev = Some x then accepted prev xs
      else x # accepted (Some x) xs)"

text \<open>Whether a parsed value is an array (\<open>Array.isArray\<close>).\<close>

fun is_array :: "json \<Rightarrow> bool" where
  "is_array (JArr vs) = True"
| "is_array _ = False"

subsection \<open>The specification's vocabulary for the line buffer and for browsing\<close>

text \<open>The invariant of the line buffer: \<open>0 \<le> cursor \<le> length(text)\<close>.\<close>

definition line_inv :: "'st TerminalController \<Rightarrow> bool" where
  "line_inv c = (0 \<le> cursor c \<and> cursor c \<le> int (length (input c)))"

text \<open>The Up and Down arrows, as \<open>onData\<close> hands them to \<open>onEscape\<close>.\<close>

definition press_up :: "'st TerminalController \<Rightarrow> 'st TerminalController" where
  "press_up c = snd (onEscape (js ''[A'') c)"

definition press_down :: "'st TerminalController \<Rightarrow> 'st TerminalController" where
  "press_down c = snd (onEscape (js ''[B'') c)"

text \<open>
  A scratch edit: the user turns the line shown at the current browse position
  into \<open>s\<close> (\<open>None\<close>: the line is left as recalled). Editing keys change the line
  buffer and its cursor only.
\<close>

fun retype :: "jstring option \<Rightarrow> 'st TerminalController \<Rightarrow> 'st TerminalController" where
  "retype None c = c"
| "retype (Some s) c = c\<lparr>input := s, cursor := int (length s)\<rparr>"

text \<open>Going up through the history, one Up arrow and one optional scratch edit per
  position; \<open>up_lines\<close> lists the line left behind at each position reached.\<close>

fun browse_up :: "jstring option list \<Rightarrow> 'st TerminalController \<Rightarrow> 'st TerminalController" where
  "browse_up [] c = c"
| "browse_up (ed # eds) c = browse_up eds (retype ed (press_up c))"

fun up_lines :: "jstring option list \<Rightarrow> 'st TerminalController \<Rightarrow> jstring list" where
  "up_lines [] c = []"
| "up_lines (ed # eds) c =
     input (retype ed (press_up c)) # up_lines eds (retype ed (press_up c))"

text \<open>The lines shown after each of \<open>k\<close> Down arrows.\<close>

definition down_lines :: "nat \<Rightarrow> 'st TerminalController \<Rightarrow> jstring list" where
  "down_lines k c = map (\<lambda>i. input ((press_down ^^ Suc i) c)) [0..<k]"

text \<open>The editing operations the specification names, each as the call that
  \<open>onData\<close> makes for it.\<close>

datatype edit_op =
    Insert jstring
  | Backspace
  | DeleteForward
  | CursorLeft
  | CursorRight
  | HistoryPrevious
  | HistoryNext
  | PushLine bool

fun apply_op ::
  "'st platform \<Rightarrow> env \<Rightarrow> edit_op \<Rightarrow> 'st TerminalController \<Rightarrow> 'st TerminalController" where
  "apply_op P e (Insert char) c = snd (onChar P e char c)"
| "apply_op P e Backspace c = snd (onChar P e [0x7F] c)"
| "apply_op P e DeleteForward c = snd (onEscape (js ''[3~'') c)"
| "apply_op P e CursorLeft c = snd (onEscape (js ''[D'') c)"
| "apply_op P e CursorRight c = snd (onEscape (js ''[C'') c)"
| "apply_op P e HistoryPrevious c = press_up c"
| "apply_op P e HistoryNext c = press_down c"
| "apply_op P e (PushLine exec) c = snd (pushInput P e exec c)"

fun apply_ops ::
  "'st platform \<Rightarrow> env \<Rightarrow> edit_op list \<Rightarrow> 'st TerminalController \<Rightarrow> 'st TerminalController" where
  "apply_ops P e [] c = c"
| "apply_ops P e (op # ops) c = apply_ops P e ops (apply_op P e op c)"

text \<open>The Backspace key, as \<open>onData\<close> hands it to \<open>onChar\<close>.\<close>

definition press_backspace ::
  "'st platform \<Rightarrow> env \<Rightarrow> 'st TerminalController \<Rightarrow> 'st TerminalController" where
  "press_backspace P e c = snd (onChar P e [0x7F] c)"

subsection \<open>The specification's vocabulary for rendering and the pending-input queue\<close>

text \<open>The handler calls among some effects, in order.\<close>

fun handler_calls :: "effect list \<Rightarrow> jstring list" where
  "handler_calls [] = []"
| "handler_calls (HandlerCall s # effs) = s # handler_calls effs"
| "handler_calls (_ # effs) = handler_calls effs"

text \<open>The writes of one \<open>renderInput\<close>: the erasure of the current line, the line
  being edited with the cursor marked, and a queued entry as a completed line.\<close>

definition erase_line :: "env \<Rightarrow> effect" where
  "erase_line e =
     TermWrite ([0x0D] @ concat (replicate (countWrapped e 0) [0x1B, 0x5B, 0x4B, 0x1B, 0x5B, 0x46])
                @ [0x1B, 0x5B, 0x4B])"

definition edited_line :: "jstring \<Rightarrow> int \<Rightarrow> effect" where
  "edited_line text k =
     TermWrite (substring text 0 k @ [0x1B, 0x37] @ substring_from text k @ [0x1B, 0x38])"

definition completed_line :: "env \<Rightarrow> InputBufferEntry \<Rightarrow> effect list" where
  "completed_line e entry =
     [TermWrite (promptText e), TermWrite (entry_input entry), TermWrite [0x0D, 0x0A]]"

text \<open>The newline \<open>startInputPhase\<close> writes when the terminal's cursor is not in
  column 0.\<close>

definition fresh_line :: "env \<Rightarrow> effect list" where
  "fresh_line e = (if cursorX e > 0 then [TermWrite [0x0D, 0x0A]] else [])"

text \<open>
  The completions that carry a queue to its end when nothing else happens: the
  first flush, then for each entry the flush of its line, preceded for an entry
  marked execute by the end of its handler. \<open>drain_effects\<close> is what the
  specification expects to see for the queue: each entry as a completed line, in
  queue order, an entry marked execute followed by its handler call and by the
  next entry into the input phase.
\<close>

definition drain_events :: "env \<Rightarrow> InputBufferEntry list \<Rightarrow> (env \<times> event) list" where
  "drain_events e q =
     (e, WriteFlushed) #
     concat (map (\<lambda>entry. if execute entry then [(e, HandlerDone), (e, WriteFlushed)]
                           else [(e, WriteFlushed)]) q)"

definition drain_effects :: "env \<Rightarrow> InputBufferEntry list \<Rightarrow> effect list" where
  "drain_effects e q =
     concat (map (\<lambda>entry. completed_line e entry @
                    (if execute entry
                     then [HandlerCall (entry_input entry), TermWrite []] @ fresh_line e
                     else [])) q)"


subsection \<open>Example platforms\<close>

text \<open>
  Two instances of the platform for the closed examples below. The storage is an
  association list. \<open>example_stringify\<close> writes the strings between double quotes,
  which is \<open>JSON.stringify\<close> on strings that need no escape. \<open>example_parse\<close> agrees
  with \<open>JSON.parse\<close> on the four texts it lists and treats every other text as
  malformed. \<open>full_storage\<close> refuses every write, as a browser does once the quota
  is used up.
\<close>

definition example_stringify :: "jstring list \<Rightarrow> jstring" where
  "example_stringify ss =
     [0x5B] @ concat (map (\<lambda>s. [0x22] @ s @ [0x22, 0x2C]) (butlast ss))
            @ concat (map (\<lambda>s. [0x22] @ s @ [0x22]) (drop (length ss - 1) ss)) @ [0x5D]"

definition example_parse :: "jstring \<Rightarrow> js_exn + json" where
  "example_parse s =
     (if s = js ''42'' then Inr (JNum 42)
      else if s = js ''null'' then Inr JNull
      else if s = js ''[]'' then Inr (JArr [])
      else if s = [0x5B, 0x22] @ js ''ls'' @ [0x22, 0x2C, 0x22] @ js ''cd'' @ [0x22, 0x5D]
        then Inr (JArr [JStr (js ''ls''), JStr (js ''cd'')])
      else Inl SyntaxError)"

definition example_platform :: "(jstring \<times> jstring) list platform" where
  "example_platform =
     \<lparr>getItem = (\<lambda>k st. Inr (map_of st k)),
      setItem = (\<lambda>k v st. Inr ((k, v) # st)),
      JSON_parse = example_parse,
      JSON_stringify = example_stringify\<rparr>"

definition full_storage :: "(jstring \<times> jstring) list platform" where
  "full_storage = example_platform\<lparr>setItem := (\<lambda>k v st. Inl DOMException)\<rparr>"

text \<open>A storage that holds the history \<open>["ls","cd"]\<close> under the key \<open>history\<close>.\<close>

definition history_key :: jstring where
  "history_key = js ''history''"

definition stored_ls_cd :: "(jstring \<times> jstring) list" where
  "stored_ls_cd =
     [(history_key, [0x5B, 0x22] @ js ''ls'' @ [0x22, 0x2C, 0x22] @ js ''cd'' @ [0x22, 0x5D])]"

text \<open>The store the constructor builds from that storage.\<close>

definition history_ls_cd :: HistoryController where
  "history_ls_cd =
     \<lparr>size_h = 100, persistent = Some history_key, entries = [js ''ls'', js ''cd''],
      temporaries = [None, None, None], cursor_h = 2\<rparr>"

text \<open>The store the constructor builds from the same storage when the capacity is 1.\<close>

definition over_capacity :: HistoryController where
  "over_capacity =
     \<lparr>size_h = 1, persistent = Some history_key, entries = [js ''ls'', js ''cd''],
      temporaries = [None, None, None], cursor_h = 2\<rparr>"

text \<open>A terminal with the prompt \<open>$\<close> whose cursor is in column 0 of row 0.\<close>

definition example_env :: env where
  "example_env = \<lparr>promptText = js ''$ '', cursorX = 0, cursorY = 0, isWrapped = (\<lambda>y. False)\<rparr>"

text \<open>
  Two controllers in the live phase: each is constructed, and its first write is
  flushed. \<open>live_controller\<close> has the history \<open>ls\<close>, \<open>cd\<close>; \<open>fresh_controller\<close> has no
  storage key and an empty history.
\<close>

definition live_controller :: "(jstring \<times> jstring) list TerminalController" where
  "live_controller =
     step example_platform example_env WriteFlushed
       (TerminalController_constructor history_ls_cd stored_ls_cd)"

definition fresh_controller :: "(jstring \<times> jstring) list TerminalController" where
  "fresh_controller =
     step example_platform example_env WriteFlushed
       (TerminalController_constructor
          \<lparr>size_h = 100, persistent = None, entries = [], temporaries = [None], cursor_h = 0\<rparr> [])"

text \<open>The live controller after the user has typed \<open>foo\<close>.\<close>

definition typed_foo :: "(jstring \<times> jstring) list TerminalController" where
  "typed_foo = step example_platform example_env (Data (js ''foo'')) live_controller"

text \<open>
  A controller that is not live yet: it has just been constructed, and before its
  first write is flushed the lines \<open>a\<close> (discarded with Ctrl+C), \<open>b\<close> (entered) and
  \<open>c\<close> (discarded) arrive.
\<close>

definition typed_ahead :: "(jstring \<times> jstring) list TerminalController" where
  "typed_ahead =
     steps example_platform
       [(example_env, Data (js ''a'' @ [0x03])),
        (example_env, Data (js ''b'' @ [0x0D])),
        (example_env, Data (js ''c'' @ [0x03]))]
       (TerminalController_constructor history_ls_cd stored_ls_cd)"


text \<open>
  A controller over a full storage that is not live yet: it has just been
  constructed and the user has typed \<open>b\<close> before its first write is flushed.
\<close>

definition typed_b_not_live :: "(jstring \<times> jstring) list TerminalController" where
  "typed_b_not_live =
     step full_storage example_env (Data (js ''b''))
       (TerminalController_constructor history_ls_cd stored_ls_cd)"


section \<open>Properties of the history store\<close>

subsection \<open>Built-ins\<close>

lemma dropWhile_all_iff: "(\<forall>x\<in>set (dropWhile P s). P x) \<longleftrightarrow> dropWhile P s = []"
proof
  assume a: "\<forall>x\<in>set (dropWhile P s). P x"
  show "dropWhile P s = []"
  proof (rule ccontr)
    assume n: "dropWhile P s \<noteq> []"
    then have "\<not> P (hd (dropWhile P s))" by (rule hd_dropWhile)
    moreover have "hd (dropWhile P s) \<in> set (dropWhile P s)" using n by (rule hd_in_set)
    ultimately show False using a by blast
  qed
qed (auto dest: set_dropWhileD)

text \<open>\<open>s.trim() !== ""\<close> says that \<open>s\<close> is not made of white space only.\<close>

lemma trim_empty_iff: "trim s = [] \<longleftrightarrow> list_all is_js_space s"
  by (simp add: trim_def dropWhile_eq_Nil_conv dropWhile_all_iff list_all_iff)

lemma js_at_last_eq: "js_at es (int (length es) - 1) = (if es = [] then None else Some (last es))"
  by (cases es rule: rev_cases) (simp_all add: js_at_def)

lemma keep_last_nonpos: "n \<le> 0 \<Longrightarrow> keep_last n xs = []"
  by (simp add: keep_last_def)

lemma keep_last_id: "int (length xs) \<le> n \<Longrightarrow> keep_last n xs = xs"
  by (simp add: keep_last_def)

lemma length_keep_last: "0 \<le> n \<Longrightarrow> int (length (keep_last n xs)) \<le> n"
  by (auto simp: keep_last_def)

lemma keep_last_pos_snoc:
  assumes "1 \<le> n"
  shows "keep_last n (xs @ [x]) \<noteq> []" and "last (keep_last n (xs @ [x])) = x"
proof -
  have lt: "nat (int (length (xs @ [x])) - n) < length (xs @ [x])"
    using assms by simp
  then show "keep_last n (xs @ [x]) \<noteq> []"
    unfolding keep_last_def by simp
  show "last (keep_last n (xs @ [x])) = x"
    unfolding keep_last_def using last_drop[OF lt] by simp
qed

lemma keep_last_keep_last: "keep_last n (keep_last n xs @ ys) = keep_last n (xs @ ys)"
proof (cases "n \<le> 0")
  case True
  then show ?thesis by (simp add: keep_last_nonpos)
next
  case False
  show ?thesis
  proof (cases "int (length xs) \<le> n")
    case True
    then show ?thesis by (simp add: keep_last_def)
  next
    case long: False
    define m where "m = nat n"
    have n: "n = int m" using False by (simp add: m_def)
    have lt: "m < length xs" using long by (simp add: n)
    have k: "nat (int (length xs) - n) = length xs - m" by (simp add: n)
    have a: "nat (int (length (drop (length xs - m) xs @ ys)) - n) = length ys"
      using lt by (simp add: n)
    have b: "nat (int (length (xs @ ys)) - n) = length ys + (length xs - m)"
      using lt by (simp add: n)
    have c: "length ys - (length xs - (length xs - m)) = length ys + (length xs - m) - length xs"
      using lt by arith
    show ?thesis
      unfolding keep_last_def k a b using lt c by (simp add: add.commute)
  qed
qed

subsection \<open>What one \<open>rewind\<close> does to the log\<close>

lemma rewind_entries:
  "entries (history_of (rewind P (Some e) (h, st))) =
     (if trim e \<noteq> [] \<and> Some e \<noteq> js_at (entries h) (int (length (entries h)) - 1)
      then keep_last (size_h h) (entries h @ [e])
      else entries h)"
  by (simp add: rewind_def history_of_def resetCursor_def Let_def keep_last_def
      split: option.split sum.split)

lemma rewind_size: "size_h (history_of (rewind P ne (h, st))) = size_h h"
  by (simp add: rewind_def history_of_def resetCursor_def Let_def split: option.split sum.split)

lemma rewind_twice:
  "entries (history_of (rewind P (Some e) (snd (rewind P (Some e) (h, st))))) =
   entries (history_of (rewind P (Some e) (h, st)))"
proof -
  obtain ex h1 st1 where r: "rewind P (Some e) (h, st) = (ex, h1, st1)"
    by (cases "rewind P (Some e) (h, st)") auto
  have h1: "history_of (rewind P (Some e) (h, st)) = h1"
    by (simp add: r history_of_def)
  have s1: "size_h h1 = size_h h"
    using rewind_size[of P "Some e" h st] by (simp add: h1)
  have e1: "entries h1 =
     (if trim e \<noteq> [] \<and> Some e \<noteq> js_at (entries h) (int (length (entries h)) - 1)
      then keep_last (size_h h) (entries h @ [e]) else entries h)"
    using rewind_entries[of P e h st] by (simp add: h1)
  have "entries (history_of (rewind P (Some e) (h1, st1))) = entries h1"
  proof (cases "trim e \<noteq> [] \<and> Some e \<noteq> js_at (entries h) (int (length (entries h)) - 1)")
    case False
    then show ?thesis
      using e1 by (auto simp add: rewind_entries)
  next
    case True
    then have eq: "entries h1 = keep_last (size_h h) (entries h @ [e])"
      using e1 by simp
    show ?thesis
    proof (cases "1 \<le> size_h h")
      case True
      then have "entries h1 \<noteq> []" "last (entries h1) = e"
        using keep_last_pos_snoc[of "size_h h" "entries h" e] eq by auto
      then show ?thesis
        by (simp add: rewind_entries js_at_last_eq)
    next
      case False
      then have "entries h1 = []" using eq by (simp add: keep_last_nonpos)
      then show ?thesis
        using False by (simp add: rewind_entries s1 js_at_last_eq keep_last_nonpos)
    qed
  qed
  then show ?thesis by (simp add: r history_of_def)
qed

text \<open>Without a storage key the store starts empty.\<close>

lemma constructor_no_key:
  "HistoryController_constructor P sz None st =
     Built \<lparr>size_h = sz, persistent = None, entries = [], temporaries = [None], cursor_h = 0\<rparr>"
  by (simp add: HistoryController_constructor_def loadEntries_def resetCursor_def)

text \<open>
  C4. \<open>rewind(e)\<close> leaves the log as it is when \<open>e\<close> is blank (white space only) or
  equal to the entry stored last; otherwise it appends \<open>e\<close> and keeps the most recent
  \<open>size\<close> entries. Rewinding the same text twice in a row stores nothing the second
  time: the log after the second call is the log after the first.
\<close>

theorem rewind_appends_only_new_nonblank:
  "entries (history_of (rewind P (Some e) (h, st))) =
     (if list_all is_js_space e \<or> last_entry h = Some e then entries h
      else keep_last (size_h h) (entries h @ [e]))
   \<and> entries (history_of (rewind P (Some e) (snd (rewind P (Some e) (h, st))))) =
     entries (history_of (rewind P (Some e) (h, st)))"
proof
  show "entries (history_of (rewind P (Some e) (h, st))) =
     (if list_all is_js_space e \<or> last_entry h = Some e then entries h
      else keep_last (size_h h) (entries h @ [e]))"
    unfolding rewind_entries last_entry_def trim_empty_iff by auto
  show "entries (history_of (rewind P (Some e) (snd (rewind P (Some e) (h, st))))) =
     entries (history_of (rewind P (Some e) (h, st)))"
    by (rule rewind_twice)
qed

theorem rewind_ls_twice_witness:
  "(case HistoryController_constructor example_platform 100 None [] of
      Built h \<Rightarrow>
        entries (history_of (rewind example_platform (Some (js ''ls''))
                  (snd (rewind example_platform (Some (js ''ls'')) (h, []))))) = [js ''ls'']
    | _ \<Rightarrow> False)"
  using rewind_appends_only_new_nonblank[of example_platform "js ''ls''"
      "\<lparr>size_h = 100, persistent = None, entries = [], temporaries = [None], cursor_h = 0\<rparr>" "[]"]
  by (simp add: constructor_no_key last_entry_def js_at_def keep_last_def is_js_space_def)

subsection \<open>The capacity of the log\<close>

lemma rewind_all_entries:
  assumes "int (length (entries h)) \<le> size_h h"
  shows "entries (fst (rewind_all P xs (h, st))) =
         keep_last (size_h h) (entries h @ accepted (last_entry h) xs)"
  using assms
proof (induction xs arbitrary: h st)
  case Nil
  then show ?case by (simp add: keep_last_id)
next
  case (Cons x xs)
  obtain ex h1 st1 where r: "rewind P (Some x) (h, st) = (ex, h1, st1)"
    by (cases "rewind P (Some x) (h, st)") auto
  have h1: "history_of (rewind P (Some x) (h, st)) = h1"
    by (simp add: r history_of_def)
  have s1: "size_h h1 = size_h h"
    using rewind_size[of P "Some x" h st] by (simp add: h1)
  have nonneg: "0 \<le> size_h h" using Cons.prems by linarith
  show ?case
  proof (cases "trim x \<noteq> [] \<and> Some x \<noteq> last_entry h")
    case False
    then have e1: "entries h1 = entries h"
      using rewind_entries[of P x h st] by (auto simp: h1 last_entry_def)
    then have l1: "last_entry h1 = last_entry h" by (simp add: last_entry_def)
    have "accepted (last_entry h) (x # xs) = accepted (last_entry h) xs"
      using False by (auto simp: trim_empty_iff)
    then show ?thesis
      using Cons.IH[of h1 st1] Cons.prems e1 l1 s1 by (simp add: r)
  next
    case True
    then have e1: "entries h1 = keep_last (size_h h) (entries h @ [x])"
      using rewind_entries[of P x h st] by (simp add: h1 last_entry_def)
    have acc: "accepted (last_entry h) (x # xs) = x # accepted (Some x) xs"
      using True by (auto simp: trim_empty_iff)
    have len1: "int (length (entries h1)) \<le> size_h h1"
      using length_keep_last[OF nonneg] e1 s1 by simp
    have ih: "entries (fst (rewind_all P xs (h1, st1))) =
        keep_last (size_h h) (entries h1 @ accepted (last_entry h1) xs)"
      using Cons.IH[OF len1, of st1] s1 by simp
    show ?thesis
    proof (cases "1 \<le> size_h h")
      case True
      then have "last_entry h1 = Some x"
        using keep_last_pos_snoc[of "size_h h" "entries h" x] e1
        by (simp add: last_entry_def js_at_last_eq)
      then show ?thesis
        using ih e1 acc keep_last_keep_last[of "size_h h" "entries h @ [x]" "accepted (Some x) xs"]
        by (simp add: r)
    next
      case False
      then have "size_h h \<le> 0" by simp
      then show ?thesis using ih by (simp add: r keep_last_nonpos)
    qed
  qed
qed

text \<open>An accepted entry brings the log within a capacity that is not negative,
  whatever its length was.\<close>

lemma rewind_trims:
  assumes "0 \<le> size_h h" and "\<not> list_all is_js_space e" and "last_entry h \<noteq> Some e"
  shows "int (length (entries (history_of (rewind P (Some e) (h, st))))) \<le> size_h h"
proof -
  have "entries (history_of (rewind P (Some e) (h, st))) = keep_last (size_h h) (entries h @ [e])"
    using assms(2,3) unfolding rewind_entries by (auto simp: trim_empty_iff last_entry_def)
  then show ?thesis using length_keep_last[OF assms(1)] by simp
qed

text \<open>The same equation holds from a log of any length, as soon as one candidate of
  the sequence is accepted and the capacity is not negative.\<close>

lemma rewind_all_entries_gen:
  assumes "0 \<le> size_h h" and "accepted (last_entry h) xs \<noteq> []"
  shows "entries (fst (rewind_all P xs (h, st))) =
         keep_last (size_h h) (entries h @ accepted (last_entry h) xs)"
  using assms
proof (induction xs arbitrary: h st)
  case Nil
  then show ?case by simp
next
  case (Cons x xs)
  obtain ex h1 st1 where r: "rewind P (Some x) (h, st) = (ex, h1, st1)"
    by (cases "rewind P (Some x) (h, st)") auto
  have h1: "history_of (rewind P (Some x) (h, st)) = h1"
    by (simp add: r history_of_def)
  have s1: "size_h h1 = size_h h"
    using rewind_size[of P "Some x" h st] by (simp add: h1)
  show ?case
  proof (cases "list_all is_js_space x \<or> last_entry h = Some x")
    case True
    then have e1: "entries h1 = entries h"
      using rewind_entries[of P x h st] by (auto simp: h1 last_entry_def trim_empty_iff)
    then have l1: "last_entry h1 = last_entry h" by (simp add: last_entry_def)
    have acc: "accepted (last_entry h) (x # xs) = accepted (last_entry h) xs"
      using True by auto
    show ?thesis
      using Cons.IH[of h1 st1] Cons.prems e1 l1 s1 acc by (simp add: r)
  next
    case False
    then have e1: "entries h1 = keep_last (size_h h) (entries h @ [x])"
      using rewind_entries[of P x h st] by (auto simp: h1 last_entry_def trim_empty_iff)
    have acc: "accepted (last_entry h) (x # xs) = x # accepted (Some x) xs"
      using False by auto
    have len1: "int (length (entries h1)) \<le> size_h h1"
      using length_keep_last[OF Cons.prems(1)] e1 s1 by simp
    have ih: "entries (fst (rewind_all P xs (h1, st1))) =
        keep_last (size_h h) (entries h1 @ accepted (last_entry h1) xs)"
      using rewind_all_entries[OF len1, of P xs st1] s1 by simp
    show ?thesis
    proof (cases "1 \<le> size_h h")
      case True
      then have "last_entry h1 = Some x"
        using keep_last_pos_snoc[of "size_h h" "entries h" x] e1
        by (simp add: last_entry_def js_at_last_eq)
      then show ?thesis
        using ih e1 acc keep_last_keep_last[of "size_h h" "entries h @ [x]" "accepted (Some x) xs"]
        by (simp add: r)
    next
      case False
      then have "size_h h \<le> 0" by simp
      then show ?thesis using ih by (simp add: r keep_last_nonpos)
    qed
  qed
qed

text \<open>
  On a store whose log is within its capacity when the sequence starts (as it is in
  every store built without persisted history, where the log is empty), after any
  sequence of \<open>rewind\<close> calls with entry arguments the log holds at most \<open>size\<close>
  entries, and it is exactly the most recent \<open>size\<close> of the entries it had followed
  by the accepted ones (not blank, not a repeat of the one accepted just before),
  in the order of acceptance. The sequence is arbitrary, so the bound holds after
  each of its calls. With \<open>size = 2\<close>, accepting a, b, c on the empty log leaves
  [b, c].
\<close>

theorem history_capacity:
  assumes "int (length (entries h)) \<le> size_h h"
  shows "int (length (entries (fst (rewind_all P xs (h, st))))) \<le> size_h h
       \<and> entries (fst (rewind_all P xs (h, st))) =
           keep_last (size_h h) (entries h @ accepted (last_entry h) xs)"
proof -
  have "0 \<le> size_h h" using assms by linarith
  then show ?thesis
    using rewind_all_entries[OF assms, of P xs st] length_keep_last by simp
qed

theorem history_capacity_witness:
  "(case HistoryController_constructor example_platform 2 None [] of
      Built h \<Rightarrow>
        int (length (entries h)) \<le> size_h h \<and>
        entries (fst (rewind_all example_platform [js ''a'', js ''b'', js ''c''] (h, []))) =
          [js ''b'', js ''c'']
    | _ \<Rightarrow> False)"
  using history_capacity[of "\<lparr>size_h = 2, persistent = None, entries = [], temporaries = [None], cursor_h = 0\<rparr>"
      example_platform "[js ''a'', js ''b'', js ''c'']" "[]"]
  by (simp add: constructor_no_key last_entry_def js_at_def keep_last_def is_js_space_def)

subsection \<open>A failing write to the storage\<close>

text \<open>What \<open>rewind\<close> returns when the write to the storage throws.\<close>

lemma rewind_throws:
  assumes "persistent h = Some key"
    and "\<not> list_all is_js_space e"
    and "last_entry h \<noteq> Some e"
    and "setItem P key (JSON_stringify P (keep_last (size_h h) (entries h @ [e]))) st = Inl ex"
  shows "rewind P (Some e) (h, st) =
           (Some ex, h\<lparr>entries := keep_last (size_h h) (entries h @ [e])\<rparr>, st)"
proof -
  have acc: "trim e \<noteq> [] \<and> Some e \<noteq> js_at (entries h) (int (length (entries h)) - 1)"
    using assms(2,3) by (auto simp: trim_empty_iff last_entry_def)
  have kl: "(if size_h h < int (length (entries h @ [e]))
             then drop (nat (int (length (entries h @ [e])) - size_h h)) (entries h @ [e])
             else entries h @ [e]) = keep_last (size_h h) (entries h @ [e])"
    by (simp add: keep_last_def)
  show ?thesis
    unfolding rewind_def using acc assms(1,4)
    by (simp add: Let_def kl del: length_append)
qed

text \<open>
  C1. The code does not do what the claim says. When a storage key is configured,
  the candidate is accepted and \<open>setItem\<close> throws, \<open>rewind\<close> lets the exception out
  to its caller: the entry has been appended (and the oldest evicted), but
  \<open>resetCursor\<close> is skipped, so the browse cursor and the scratch edits stay as they
  were. The constructor guards its storage access with \<open>try\<close>; \<open>rewind\<close> does not.
\<close>

theorem rewind_storage_failure_propagates:
  assumes "persistent h = Some key"
    and "\<not> list_all is_js_space e"
    and "last_entry h \<noteq> Some e"
    and "setItem P key (JSON_stringify P (keep_last (size_h h) (entries h @ [e]))) st = Inl ex"
  shows "rewind P (Some e) (h, st) =
           (Some ex, h\<lparr>entries := keep_last (size_h h) (entries h @ [e])\<rparr>, st)"
  using assms by (rule rewind_throws)

lemma constructor_ls_cd:
  "HistoryController_constructor full_storage 100 (Some history_key) stored_ls_cd =
     Built \<lparr>size_h = 100, persistent = Some history_key, entries = [js ''ls'', js ''cd''],
            temporaries = [None, None, None], cursor_h = 2\<rparr>"
  by (simp add: HistoryController_constructor_def loadEntries_def resetCursor_def
      full_storage_def example_platform_def example_parse_def stored_ls_cd_def history_key_def)

text \<open>The store is loaded with two entries, the user goes one entry up from a blank
  line, and the next accepted line cannot be written to the full storage.\<close>

theorem rewind_storage_failure_witness:
  "(case HistoryController_constructor full_storage 100 (Some history_key) stored_ls_cd of
      Built h0 \<Rightarrow>
        (let h1 = snd (getPrevious [] h0);
             r = rewind full_storage (Some (js ''pwd'')) (h1, stored_ls_cd)
         in fst r = Some DOMException
          \<and> entries (history_of r) = [js ''ls'', js ''cd'', js ''pwd'']
          \<and> cursor_h (history_of r) = 1
          \<and> temporaries (history_of r) = [None, None, Some []])
    | _ \<Rightarrow> False)"
proof -
  have "rewind full_storage (Some (js ''pwd''))
          (\<lparr>size_h = 100, persistent = Some history_key, entries = [js ''ls'', js ''cd''],
            temporaries = [None, None, Some []], cursor_h = 1\<rparr>, stored_ls_cd) =
        (Some DOMException,
         \<lparr>size_h = 100, persistent = Some history_key,
           entries = [js ''ls'', js ''cd'', js ''pwd''],
           temporaries = [None, None, Some []], cursor_h = 1\<rparr>, stored_ls_cd)"
    using rewind_storage_failure_propagates[of
        "\<lparr>size_h = 100, persistent = Some history_key, entries = [js ''ls'', js ''cd''],
          temporaries = [None, None, Some []], cursor_h = 1\<rparr>"
        history_key "js ''pwd''" full_storage stored_ls_cd DOMException]
    by (simp add: last_entry_def js_at_def keep_last_def is_js_space_def full_storage_def)
  then show ?thesis
    by (simp add: constructor_ls_cd getPrevious_def js_set_def Let_def history_of_def)
qed

subsection \<open>Construction\<close>

lemma as_strings_map_JStr: "as_strings (map JStr es) = Some es"
  by (induction es) simp_all

text \<open>A store loads the array of strings found in the storage.\<close>

lemma constructor_array_of_strings:
  assumes "getItem P k st = Inr (Some s)"
    and "JSON_parse P s = Inr (JArr (map JStr es))"
  shows "HistoryController_constructor P sz (Some k) st =
           Built \<lparr>size_h = sz, persistent = Some k, entries = es,
                  temporaries = replicate (Suc (length es)) None, cursor_h = length es\<rparr>"
  using assms
  by (simp add: HistoryController_constructor_def loadEntries_def resetCursor_def
      as_strings_map_JStr replicate_append_same map_replicate_const)

text \<open>A store starts empty when the storage throws or the item is not JSON.\<close>

lemma constructor_unparsable:
  assumes "getItem P k st = Inl ex
         \<or> (\<exists>item ex'. getItem P k st = Inr item
              \<and> JSON_parse P (case item of None \<Rightarrow> [] | Some s \<Rightarrow> s) = Inl ex')"
  shows "HistoryController_constructor P sz (Some k) st =
           Built \<lparr>size_h = sz, persistent = Some k, entries = [],
                  temporaries = [None], cursor_h = 0\<rparr>"
  using assms
  by (auto simp add: HistoryController_constructor_def loadEntries_def resetCursor_def)

text \<open>
  C3. The code does not do what the claim says on a store built from a persisted
  history longer than its capacity. The constructor assigns the parsed array to
  \<open>entries\<close> as it is, and \<open>rewind\<close> trims the log only in the branch that appends:
  a candidate that is blank or repeats the last entry leaves the whole log in
  place, longer than \<open>size\<close>, where the claim says that the log never exceeds
  \<open>size\<close> and holds the most recent \<open>size\<close> entries. \<open>rewind\<close> trims, and the README
  calls \<open>historySize\<close> the maximum number of entries kept; the constructor misses
  the trim. From a store within its capacity what the claim says holds
  (\<open>history_capacity\<close>), and from any store once a candidate is accepted
  (\<open>rewind_all_entries_gen\<close>).
\<close>

theorem over_capacity_log_survives:
  assumes "getItem P k st = Inr (Some s)"
    and "JSON_parse P s = Inr (JArr (map JStr es))"
    and "sz < int (length es)"
    and "list_all is_js_space e \<or> js_at es (int (length es) - 1) = Some e"
  shows "HistoryController_constructor P sz (Some k) st =
           Built \<lparr>size_h = sz, persistent = Some k, entries = es,
                  temporaries = replicate (Suc (length es)) None, cursor_h = length es\<rparr>
       \<and> entries (history_of (rewind P (Some e)
            (\<lparr>size_h = sz, persistent = Some k, entries = es,
              temporaries = replicate (Suc (length es)) None, cursor_h = length es\<rparr>, st'))) = es
       \<and> size_h (history_of (rewind P (Some e)
            (\<lparr>size_h = sz, persistent = Some k, entries = es,
              temporaries = replicate (Suc (length es)) None, cursor_h = length es\<rparr>, st')))
          < int (length es)"
proof (intro conjI)
  show "HistoryController_constructor P sz (Some k) st =
           Built \<lparr>size_h = sz, persistent = Some k, entries = es,
                  temporaries = replicate (Suc (length es)) None, cursor_h = length es\<rparr>"
    using assms(1,2) by (rule constructor_array_of_strings)
  show "entries (history_of (rewind P (Some e)
            (\<lparr>size_h = sz, persistent = Some k, entries = es,
              temporaries = replicate (Suc (length es)) None, cursor_h = length es\<rparr>, st'))) = es"
    unfolding rewind_entries using assms(4) by (auto simp: trim_empty_iff)
  show "size_h (history_of (rewind P (Some e)
            (\<lparr>size_h = sz, persistent = Some k, entries = es,
              temporaries = replicate (Suc (length es)) None, cursor_h = length es\<rparr>, st')))
          < int (length es)"
    unfolding rewind_size using assms(3) by simp
qed

theorem over_capacity_log_survives_witness:
  "HistoryController_constructor example_platform 1 (Some history_key) stored_ls_cd =
     Built over_capacity
   \<and> size_h over_capacity = 1
   \<and> entries (history_of (rewind example_platform (Some (js ''cd''))
        (over_capacity, stored_ls_cd))) = [js ''ls'', js ''cd'']
   \<and> size_h (history_of (rewind example_platform (Some (js ''cd''))
        (over_capacity, stored_ls_cd))) < 2"
proof -
  have g: "getItem example_platform history_key stored_ls_cd =
      Inr (Some ([0x5B, 0x22] @ js ''ls'' @ [0x22, 0x2C, 0x22] @ js ''cd'' @ [0x22, 0x5D]))"
    by (simp add: example_platform_def stored_ls_cd_def)
  have p: "JSON_parse example_platform
      ([0x5B, 0x22] @ js ''ls'' @ [0x22, 0x2C, 0x22] @ js ''cd'' @ [0x22, 0x5D]) =
      Inr (JArr (map JStr [js ''ls'', js ''cd'']))"
    by (simp add: example_platform_def example_parse_def)
  have oc: "over_capacity = \<lparr>size_h = 1, persistent = Some history_key,
      entries = [js ''ls'', js ''cd''],
      temporaries = replicate (Suc (length [js ''ls'', js ''cd''])) None,
      cursor_h = length [js ''ls'', js ''cd'']\<rparr>"
    by (simp add: over_capacity_def numeral_3_eq_3)
  show ?thesis
    using over_capacity_log_survives[OF g p, of 1 "js ''cd''" stored_ls_cd]
    unfolding oc[symmetric]
    by (simp add: js_at_def over_capacity_def)
qed

text \<open>
  C9. The code does not do what the claim says for an item that is JSON but not an
  array (\<open>42\<close>, \<open>null\<close>, \<open>"ls"\<close>, an object): \<open>JSON.parse\<close> succeeds, the value is
  assigned to \<open>entries\<close>, and \<open>resetCursor\<close>, outside the \<open>try\<close>, throws a \<open>TypeError\<close>
  out of the constructor. The claim says that the store starts empty and that
  nothing is surfaced. The other two parts of the claim hold:
  \<open>constructor_no_key\<close>, \<open>constructor_unparsable\<close>, \<open>constructor_array_of_strings\<close>.
\<close>

theorem constructor_throws_on_non_array:
  assumes "getItem P k st = Inr (Some s)"
    and "JSON_parse P s = Inr v"
    and "\<not> is_array v"
  shows "HistoryController_constructor P sz (Some k) st = ConstructorThrew TypeError"
  using assms
  by (cases v) (simp_all add: HistoryController_constructor_def loadEntries_def)

theorem constructor_throws_on_non_array_witness:
  "HistoryController_constructor example_platform 100 (Some history_key) [(history_key, js ''42'')]
     = ConstructorThrew TypeError"
  using constructor_throws_on_non_array[of example_platform history_key
      "[(history_key, js ''42'')]" "js ''42''" "JNum 42" 100]
  by (simp add: example_platform_def example_parse_def)

section \<open>Properties of the input controller\<close>

subsection \<open>Arrays, rendering and the arrow keys\<close>

lemma tmp_at_js_set: "tmp_at (js_set ts i v) j = (if j = int i then Some v else tmp_at ts j)"
  by (auto simp: tmp_at_def js_at_def js_set_def nth_append nth_list_update)

lemma js_at_Some: "0 \<le> i \<Longrightarrow> i < int (length xs) \<Longrightarrow> js_at xs i = Some (xs ! nat i)"
  by (simp add: js_at_def)

lemma nullish_Some: "nullish a (Some x) = Some (case a of Some v \<Rightarrow> v | None \<Rightarrow> x)"
  by (cases a) (simp_all add: nullish_def)

lemma onEscape_up:
  "onEscape (js ''[A'') c =
     (case getPrevious (input c) (history c) of
        (Some v, h') \<Rightarrow> (False, c\<lparr>history := h', input := v, cursor := int (length v)\<rparr>)
      | (None, h') \<Rightarrow> (False, c\<lparr>history := h'\<rparr>))"
  by (simp add: onEscape_def)

lemma onEscape_down:
  "onEscape (js ''[B'') c =
     (case getNext (input c) (history c) of
        (Some v, h') \<Rightarrow> (False, c\<lparr>history := h', input := v, cursor := int (length v)\<rparr>)
      | (None, h') \<Rightarrow> (False, c\<lparr>history := h'\<rparr>))"
  by (simp add: onEscape_def)

lemma renderInput_frame:
  "history (renderInput e nl cpl inp c) = history c"
  "input (renderInput e nl cpl inp c) = input c"
  "cursor (renderInput e nl cpl inp c) = cursor c"
  "inputPhase (renderInput e nl cpl inp c) = inputPhase c"
  "inputBuffer (renderInput e nl cpl inp c) = inputBuffer c"
  "localStorage (renderInput e nl cpl inp c) = localStorage c"
  "pending (renderInput e nl cpl inp c) = pending c"
  by (simp_all add: renderInput_def write_data_def Let_def split: option.split)

lemma press_up_eq:
  "press_up c =
     (case getPrevious (input c) (history c) of
        (Some v, h') \<Rightarrow> c\<lparr>history := h', input := v, cursor := int (length v)\<rparr>
      | (None, h') \<Rightarrow> c\<lparr>history := h'\<rparr>)"
  unfolding press_up_def onEscape_up by (simp split: prod.split option.split)

lemma press_down_eq:
  "press_down c =
     (case getNext (input c) (history c) of
        (Some v, h') \<Rightarrow> c\<lparr>history := h', input := v, cursor := int (length v)\<rparr>
      | (None, h') \<Rightarrow> c\<lparr>history := h'\<rparr>)"
  unfolding press_down_def onEscape_down by (simp split: prod.split option.split)

lemma onData_escape:
  "onData P e (0x1B # sequence) c =
     (None, if inputPhase (snd (onEscape sequence c))
            then renderInput e False False None (snd (onEscape sequence c))
            else snd (onEscape sequence c))"
  by (simp add: onData_def onEscape_def split: prod.split option.split)

text \<open>An arrow key that arrives as data goes through \<open>onEscape\<close>; the line is
  rendered again in the live phase.\<close>

lemma arrow_key_data:
  "onData P e (0x1B # js ''[A'') c =
     (None, if inputPhase c then renderInput e False False None (press_up c) else press_up c)"
  "onData P e (0x1B # js ''[B'') c =
     (None, if inputPhase c then renderInput e False False None (press_down c) else press_down c)"
proof -
  have "inputPhase (press_up c) = inputPhase c"
    by (simp add: press_up_eq split: prod.split option.split)
  then show "onData P e (0x1B # js ''[A'') c =
     (None, if inputPhase c then renderInput e False False None (press_up c) else press_up c)"
    unfolding onData_escape by (simp add: press_up_def)
  have "inputPhase (press_down c) = inputPhase c"
    by (simp add: press_down_eq split: prod.split option.split)
  then show "onData P e (0x1B # js ''[B'') c =
     (None, if inputPhase c then renderInput e False False None (press_down c) else press_down c)"
    unfolding onData_escape by (simp add: press_down_def)
qed

subsection \<open>The example controllers\<close>

lemma live_controller_eq:
  "live_controller =
     \<lparr>history = history_ls_cd, inputPhase = True, input = [], inputBuffer = [], cursor = 0,
      localStorage = stored_ls_cd, pending = NoChain,
      effects = [TermWrite [], TermWrite (js ''$ ''), TermWrite [0x1B, 0x37, 0x1B, 0x38]]\<rparr>"
  by (simp add: live_controller_def step_def TerminalController_constructor_def
      startInputPhase_def write_data_def afterFlush_def drain_def renderInput_def
      example_env_def substring_def substring_from_def Let_def)

lemma fresh_controller_eq:
  "fresh_controller =
     \<lparr>history = \<lparr>size_h = 100, persistent = None, entries = [], temporaries = [None], cursor_h = 0\<rparr>,
      inputPhase = True, input = [], inputBuffer = [], cursor = 0,
      localStorage = [], pending = NoChain,
      effects = [TermWrite [], TermWrite (js ''$ ''), TermWrite [0x1B, 0x37, 0x1B, 0x38]]\<rparr>"
  by (simp add: fresh_controller_def step_def TerminalController_constructor_def
      startInputPhase_def write_data_def afterFlush_def drain_def renderInput_def
      example_env_def substring_def substring_from_def Let_def)

lemma constructor_history_ls_cd:
  "HistoryController_constructor example_platform 100 (Some history_key) stored_ls_cd =
     Built history_ls_cd"
  by (simp add: HistoryController_constructor_def loadEntries_def resetCursor_def
      example_platform_def example_parse_def stored_ls_cd_def history_key_def history_ls_cd_def)

subsection \<open>History recall\<close>

text \<open>
  C10. When \<open>getPrevious\<close> (Up arrow) or \<open>getNext\<close> (Down arrow) returns a value,
  the line buffer becomes that value and the line-edit cursor is placed at its end;
  when it returns \<open>undefined\<close>, the line buffer and the cursor are unchanged.
  \<open>getPrevious\<close> returns \<open>undefined\<close> at the oldest boundary (browse cursor 0, which
  includes the empty history), and \<open>getNext\<close> does at the live position.
\<close>

theorem arrow_recall:
  "(case fst (getPrevious (input c) (history c)) of
      Some v \<Rightarrow> input (press_up c) = v \<and> cursor (press_up c) = int (length v)
    | None \<Rightarrow> input (press_up c) = input c \<and> cursor (press_up c) = cursor c)
   \<and> (case fst (getNext (input c) (history c)) of
      Some v \<Rightarrow> input (press_down c) = v \<and> cursor (press_down c) = int (length v)
    | None \<Rightarrow> input (press_down c) = input c \<and> cursor (press_down c) = cursor c)
   \<and> (cursor_h (history c) = 0 \<longrightarrow> fst (getPrevious (input c) (history c)) = None)
   \<and> (cursor_h (history c) = length (entries (history c))
        \<and> length (temporaries (history c)) \<le> Suc (length (entries (history c)))
      \<longrightarrow> fst (getNext (input c) (history c)) = None)"
proof (intro conjI impI)
  show "case fst (getPrevious (input c) (history c)) of
      Some v \<Rightarrow> input (press_up c) = v \<and> cursor (press_up c) = int (length v)
    | None \<Rightarrow> input (press_up c) = input c \<and> cursor (press_up c) = cursor c"
    by (cases "getPrevious (input c) (history c)")
       (simp add: press_up_eq split: option.split)
  show "case fst (getNext (input c) (history c)) of
      Some v \<Rightarrow> input (press_down c) = v \<and> cursor (press_down c) = int (length v)
    | None \<Rightarrow> input (press_down c) = input c \<and> cursor (press_down c) = cursor c"
    by (cases "getNext (input c) (history c)")
       (simp add: press_down_eq split: option.split)
next
  assume "cursor_h (history c) = 0"
  then show "fst (getPrevious (input c) (history c)) = None"
    by (simp add: getPrevious_def Let_def tmp_at_js_set nullish_def)
       (simp add: tmp_at_def js_at_def)
next
  assume a: "cursor_h (history c) = length (entries (history c))
        \<and> length (temporaries (history c)) \<le> Suc (length (entries (history c)))"
  have "length (js_set (temporaries (history c)) (length (entries (history c))) (input c))
          \<le> Suc (length (entries (history c)))"
    using a by (auto simp: js_set_def)
  then have "tmp_at (js_set (temporaries (history c)) (length (entries (history c))) (input c))
          (int (length (entries (history c))) + 1) = None"
    by (simp add: tmp_at_def js_at_def)
  then show "fst (getNext (input c) (history c)) = None"
    using a by (simp add: getNext_def Let_def nullish_def js_at_def)
qed

theorem arrow_recall_witness:
  "cursor_h (history fresh_controller) = 0
   \<and> cursor_h (history fresh_controller) = length (entries (history fresh_controller))
   \<and> length (temporaries (history fresh_controller)) \<le> Suc (length (entries (history fresh_controller)))
   \<and> input (press_up fresh_controller) = [] \<and> cursor (press_up fresh_controller) = 0
   \<and> input (press_down fresh_controller) = [] \<and> cursor (press_down fresh_controller) = 0
   \<and> input (press_up live_controller) = js ''cd'' \<and> cursor (press_up live_controller) = 2"
proof -
  have pre: "cursor_h (history fresh_controller) = 0"
    "cursor_h (history fresh_controller) = length (entries (history fresh_controller))"
    "length (temporaries (history fresh_controller)) \<le> Suc (length (entries (history fresh_controller)))"
    by (simp_all add: fresh_controller_eq)
  have vals: "input fresh_controller = []" "cursor fresh_controller = 0"
    by (simp_all add: fresh_controller_eq)
  have g: "fst (getPrevious (input live_controller) (history live_controller)) = Some (js ''cd'')"
    by (simp add: getPrevious_def live_controller_eq history_ls_cd_def
        js_set_def tmp_at_def js_at_def nullish_def Let_def)
  have n1: "fst (getPrevious (input fresh_controller) (history fresh_controller)) = None"
    using arrow_recall[of fresh_controller] pre by blast
  have n2: "fst (getNext (input fresh_controller) (history fresh_controller)) = None"
    using arrow_recall[of fresh_controller] pre by blast
  have fresh: "input (press_up fresh_controller) = [] \<and> cursor (press_up fresh_controller) = 0
             \<and> input (press_down fresh_controller) = [] \<and> cursor (press_down fresh_controller) = 0"
    using arrow_recall[of fresh_controller] unfolding n1 n2 by (simp add: vals)
  have live: "input (press_up live_controller) = js ''cd'' \<and> cursor (press_up live_controller) = 2"
    using arrow_recall[of live_controller] unfolding g by simp
  show ?thesis
    using pre fresh live by simp
qed

subsection \<open>Browsing up and back down\<close>

lemma press_up_frame:
  assumes "0 < cursor_h (history c)" "cursor_h (history c) \<le> length (entries (history c))"
  shows "cursor_h (history (retype ed (press_up c))) = cursor_h (history c) - 1"
    and "entries (history (retype ed (press_up c))) = entries (history c)"
    and "tmp_at (temporaries (history (retype ed (press_up c)))) j =
           (if j = int (cursor_h (history c)) then Some (input c)
            else tmp_at (temporaries (history c)) j)"
proof -
  define h1 where "h1 =
      (history c)\<lparr>temporaries := js_set (temporaries (history c)) (cursor_h (history c)) (input c),
                   cursor_h := cursor_h (history c) - 1\<rparr>"
  have at: "js_at (entries (history c)) (int (cursor_h (history c)) - 1) =
        Some (entries (history c) ! nat (int (cursor_h (history c)) - 1))"
    using assms by (intro js_at_Some) auto
  obtain w where g: "getPrevious (input c) (history c) = (Some w, h1)"
    using assms(1) unfolding getPrevious_def Let_def at nullish_Some h1_def by simp
  have pu: "press_up c = c\<lparr>history := h1, input := w, cursor := int (length w)\<rparr>"
    unfolding press_up_def onEscape_up g by simp
  have hist: "history (retype ed (press_up c)) = h1"
    by (cases ed) (simp_all add: pu)
  show "cursor_h (history (retype ed (press_up c))) = cursor_h (history c) - 1"
    unfolding hist by (simp add: h1_def)
  show "entries (history (retype ed (press_up c))) = entries (history c)"
    unfolding hist by (simp add: h1_def)
  show "tmp_at (temporaries (history (retype ed (press_up c)))) j =
           (if j = int (cursor_h (history c)) then Some (input c)
            else tmp_at (temporaries (history c)) j)"
    unfolding hist by (simp add: h1_def tmp_at_js_set)
qed

lemma press_down_frame:
  assumes "cursor_h (history c) < length (entries (history c))"
    and "tmp_at (temporaries (history c)) (int (cursor_h (history c)) + 1) = Some l"
  shows "input (press_down c) = l"
    and "cursor (press_down c) = int (length l)"
    and "cursor_h (history (press_down c)) = cursor_h (history c) + 1"
    and "entries (history (press_down c)) = entries (history c)"
    and "tmp_at (temporaries (history (press_down c))) j =
           (if j = int (cursor_h (history c)) then Some (input c)
            else tmp_at (temporaries (history c)) j)"
proof -
  define h1 where "h1 =
      (history c)\<lparr>temporaries := js_set (temporaries (history c)) (cursor_h (history c)) (input c),
                   cursor_h := cursor_h (history c) + 1\<rparr>"
  have t: "tmp_at (js_set (temporaries (history c)) (cursor_h (history c)) (input c))
             (int (cursor_h (history c)) + 1) = Some l"
    using assms(2) by (simp add: tmp_at_js_set)
  have g: "getNext (input c) (history c) = (Some l, h1)"
    using assms(1) unfolding getNext_def Let_def t h1_def by (simp add: nullish_def)
  have pd: "press_down c = c\<lparr>history := h1, input := l, cursor := int (length l)\<rparr>"
    unfolding press_down_def onEscape_down g by simp
  show "input (press_down c) = l" "cursor (press_down c) = int (length l)"
    "cursor_h (history (press_down c)) = cursor_h (history c) + 1"
    "entries (history (press_down c)) = entries (history c)"
    unfolding pd by (simp_all add: h1_def)
  show "tmp_at (temporaries (history (press_down c))) j =
           (if j = int (cursor_h (history c)) then Some (input c)
            else tmp_at (temporaries (history c)) j)"
    unfolding pd by (simp add: h1_def tmp_at_js_set)
qed

lemma down_lines_Suc:
  "down_lines (Suc k) c = down_lines k c @ [input ((press_down ^^ Suc k) c)]"
  by (simp add: down_lines_def)

lemma browse_round_trip_aux:
  assumes "cursor_h (history c) \<le> length (entries (history c))"
    and "length eds \<le> cursor_h (history c)"
  shows "input ((press_down ^^ length eds) (browse_up eds c)) = input c
       \<and> cursor_h (history ((press_down ^^ length eds) (browse_up eds c))) = cursor_h (history c)
       \<and> entries (history ((press_down ^^ length eds) (browse_up eds c))) = entries (history c)
       \<and> (\<forall>j > int (cursor_h (history c)).
            tmp_at (temporaries (history ((press_down ^^ length eds) (browse_up eds c)))) j =
            tmp_at (temporaries (history c)) j)
       \<and> input (browse_up eds c) # down_lines (length eds) (browse_up eds c) =
            rev (input c # up_lines eds c)"
  using assms
proof (induction eds arbitrary: c)
  case Nil
  show ?case by (simp add: down_lines_def)
next
  case (Cons ed eds)
  define p where "p = cursor_h (history c)"
  define c1 where "c1 = retype ed (press_up c)"
  define cu where "cu = browse_up eds c1"
  define c2 where "c2 = (press_down ^^ length eds) cu"
  have p: "0 < p" "p \<le> length (entries (history c))"
    using Cons.prems by (simp_all add: p_def)
  have f1: "cursor_h (history c1) = p - 1" "entries (history c1) = entries (history c)"
    and t1: "\<And>j. tmp_at (temporaries (history c1)) j =
              (if j = int p then Some (input c) else tmp_at (temporaries (history c)) j)"
    using press_up_frame[of c ed] p by (simp_all add: p_def c1_def)
  have ih: "input c2 = input c1
       \<and> cursor_h (history c2) = cursor_h (history c1)
       \<and> entries (history c2) = entries (history c1)
       \<and> (\<forall>j > int (cursor_h (history c1)).
            tmp_at (temporaries (history c2)) j = tmp_at (temporaries (history c1)) j)
       \<and> input cu # down_lines (length eds) cu = rev (input c1 # up_lines eds c1)"
    unfolding c2_def cu_def
    using Cons.IH[of c1] Cons.prems f1 p by (simp add: p_def)
  have pos2: "cursor_h (history c2) = p - 1" and e2: "entries (history c2) = entries (history c)"
    using ih f1 by simp_all
  have "tmp_at (temporaries (history c2)) (int p) = Some (input c)"
    using ih f1 t1 p by simp
  then have t2p: "tmp_at (temporaries (history c2)) (int (cursor_h (history c2)) + 1) = Some (input c)"
    using pos2 p by (simp add: of_nat_diff)
  have lt2: "cursor_h (history c2) < length (entries (history c2))"
    using pos2 e2 p by simp
  have d: "input (press_down c2) = input c"
    "cursor_h (history (press_down c2)) = p"
    "entries (history (press_down c2)) = entries (history c)"
    and td: "\<And>j. tmp_at (temporaries (history (press_down c2))) j =
           (if j = int (cursor_h (history c2)) then Some (input c2)
            else tmp_at (temporaries (history c2)) j)"
    using press_down_frame[OF lt2 t2p] pos2 e2 p by simp_all
  have fin: "(press_down ^^ length (ed # eds)) (browse_up (ed # eds) c) = press_down c2"
    by (simp add: c2_def cu_def c1_def)
  have bu: "browse_up (ed # eds) c = cu" by (simp add: cu_def c1_def)
  have frame: "\<forall>j > int p. tmp_at (temporaries (history (press_down c2))) j =
            tmp_at (temporaries (history c)) j"
  proof (intro allI impI)
    fix j assume j: "int p < j"
    have ne: "j \<noteq> int (cursor_h (history c2))"
      using j pos2 by (cases p) auto
    have "tmp_at (temporaries (history (press_down c2))) j = tmp_at (temporaries (history c2)) j"
      using ne by (simp add: td)
    also have "\<dots> = tmp_at (temporaries (history c1)) j"
      using ih f1 j by simp
    also have "\<dots> = tmp_at (temporaries (history c)) j"
      using t1 j by simp
    finally show "tmp_at (temporaries (history (press_down c2))) j =
            tmp_at (temporaries (history c)) j" .
  qed
  have lines: "input cu # down_lines (length (ed # eds)) cu = rev (input c # up_lines (ed # eds) c)"
  proof -
    have "input cu # down_lines (Suc (length eds)) cu =
          (input cu # down_lines (length eds) cu) @ [input ((press_down ^^ Suc (length eds)) cu)]"
      by (simp add: down_lines_Suc)
    also have "\<dots> = rev (input c1 # up_lines eds c1) @ [input (press_down c2)]"
      using ih by (simp add: c2_def)
    also have "\<dots> = rev (input c # up_lines (ed # eds) c)"
      using d by (simp add: c1_def)
    finally show ?thesis by simp
  qed
  show ?case
    using d frame lines by (simp add: p_def c2_def cu_def c1_def)
qed

text \<open>The editing keys leave the history store alone: a scratch edit reaches it
  only as the \<open>current\<close> argument of the next recall.\<close>

lemma editing_keys_frame:
  "char \<noteq> [0x0D] \<Longrightarrow> char \<noteq> [0x03] \<Longrightarrow> history (snd (onChar P e char c)) = history c"
  "sequence \<noteq> js ''[A'' \<Longrightarrow> sequence \<noteq> js ''[B'' \<Longrightarrow>
     history (snd (onEscape sequence c)) = history c"
  by (simp_all add: onChar_def onEscape_def)

text \<open>
  C5. From the live position, going up \<open>k \<le> length(entries)\<close> times and then down
  \<open>k\<close> times gives back the line the user started from (any line, the blank line
  among them) and the live position. With a scratch edit made at any position on
  the way up, the lines shown on the way down are the lines left on the way up, in
  reverse order: each scratch edit is restored.
\<close>

theorem history_browse_round_trip:
  assumes "cursor_h (history c) = length (entries (history c))"
    and "length eds \<le> length (entries (history c))"
  shows "input ((press_down ^^ length eds) (browse_up eds c)) = input c
       \<and> cursor_h (history ((press_down ^^ length eds) (browse_up eds c))) =
           length (entries (history c))
       \<and> input (browse_up eds c) # down_lines (length eds) (browse_up eds c) =
           rev (input c # up_lines eds c)"
  using browse_round_trip_aux[of c eds] assms by simp

theorem history_browse_round_trip_witness:
  "cursor_h (history live_controller) = length (entries (history live_controller))
   \<and> length [None, Some (js ''cat'')] \<le> length (entries (history live_controller))
   \<and> input (browse_up [None, Some (js ''cat'')] live_controller) = js ''cat''
   \<and> down_lines 2 (browse_up [None, Some (js ''cat'')] live_controller) = [js ''cd'', []]
   \<and> input ((press_down ^^ 2) (browse_up [None, Some (js ''cat'')] live_controller)) = []"
proof -
  have up1: "press_up live_controller =
      live_controller\<lparr>history := history_ls_cd\<lparr>temporaries := [None, None, Some []], cursor_h := 1\<rparr>,
                       input := js ''cd'', cursor := 2\<rparr>"
    by (simp add: press_up_def onEscape_def getPrevious_def live_controller_eq history_ls_cd_def
        js_set_def tmp_at_def js_at_def nullish_def Let_def)
  have up2: "press_up (press_up live_controller) =
      live_controller\<lparr>history := history_ls_cd\<lparr>temporaries := [None, Some (js ''cd''), Some []], cursor_h := 0\<rparr>,
                       input := js ''ls'', cursor := 2\<rparr>"
    unfolding up1
    by (simp add: press_up_def onEscape_def getPrevious_def live_controller_eq history_ls_cd_def
        js_set_def tmp_at_def js_at_def nullish_def Let_def)
  have ul: "up_lines [None, Some (js ''cat'')] live_controller = [js ''cd'', js ''cat'']"
    by (simp add: up1 up2)
  have bu: "input (browse_up [None, Some (js ''cat'')] live_controller) = js ''cat''"
    by (simp add: up1 up2)
  have pre: "cursor_h (history live_controller) = length (entries (history live_controller))"
    "length [None, Some (js ''cat'')] \<le> length (entries (history live_controller))"
    by (simp_all add: live_controller_eq history_ls_cd_def)
  have inp: "input live_controller = []" by (simp add: live_controller_eq)
  show ?thesis
    using history_browse_round_trip[OF pre] pre bu ul inp by (simp add: numeral_2_eq_2)
qed

subsection \<open>The line buffer\<close>

lemma substring_0: "substring s 0 k = take (nat k) s"
  by (auto simp: substring_def Let_def min_def max_def)

lemma substring_from_eq: "substring_from s k = drop (nat k) s"
  by (auto simp: substring_from_def substring_def Let_def min_def max_def)

lemma line_inv_cong:
  "input c' = input c \<Longrightarrow> cursor c' = cursor c \<Longrightarrow> line_inv c' = line_inv c"
  by (simp add: line_inv_def)

lemma run_frame:
  "input (run s c) = input c" "cursor (run s c) = cursor c" "history (run s c) = history c"
  "inputBuffer (run s c) = inputBuffer c" "inputPhase (run s c) = inputPhase c"
  "localStorage (run s c) = localStorage c"
  by (simp_all add: run_def)

lemma startInputPhase_frame:
  "input (startInputPhase c) = input c" "cursor (startInputPhase c) = cursor c"
  "history (startInputPhase c) = history c" "inputBuffer (startInputPhase c) = inputBuffer c"
  "inputPhase (startInputPhase c) = inputPhase c" "localStorage (startInputPhase c) = localStorage c"
  by (simp_all add: startInputPhase_def write_data_def)

lemma drain_line: "input (drain e c) = input c" "cursor (drain e c) = cursor c"
  by (simp_all add: drain_def renderInput_frame run_frame Let_def split: list.split)

lemma afterFlush_line: "input (afterFlush e c) = input c" "cursor (afterFlush e c) = cursor c"
  by (simp_all add: afterFlush_def drain_line write_data_def)

lemma pushInput_line:
  "(input (snd (pushInput P e x c)) = [] \<and> cursor (snd (pushInput P e x c)) = 0)
   \<or> (input (snd (pushInput P e x c)) = input c \<and> cursor (snd (pushInput P e x c)) = cursor c)"
  by (simp add: pushInput_def Let_def renderInput_frame run_frame startInputPhase_frame
      split: prod.split option.split)

lemma pushInput_line_inv: "line_inv c \<Longrightarrow> line_inv (snd (pushInput P e x c))"
  using pushInput_line[of P e x c] by (auto simp: line_inv_def)

lemma onEscape_line_inv: "line_inv c \<Longrightarrow> line_inv (snd (onEscape sequence c))"
  by (auto simp: onEscape_def line_inv_def substring_0 substring_from_eq
      split: prod.split option.split)

lemma onChar_printable:
  assumes "char \<noteq> []" and "32 \<le> hd char" and "hd char \<noteq> 0x7F"
  shows "onChar P e char c =
     (Inr False,
      c\<lparr>input := take (nat (cursor c)) (input c) @ char @ drop (nat (cursor c)) (input c),
        cursor := cursor c + int (length char)\<rparr>)"
  using assms by (cases char) (auto simp: onChar_def substring_0 substring_from_eq not_le)

lemma onChar_backspace:
  "onChar P e [0x7F] c =
     (Inr False,
      if cursor c > 0
      then c\<lparr>input := take (nat (cursor c - 1)) (input c) @ drop (nat (cursor c)) (input c),
             cursor := cursor c - 1\<rparr>
      else c)"
  by (simp add: onChar_def substring_0 substring_from_eq)

lemma onChar_line_inv: "line_inv c \<Longrightarrow> line_inv (snd (onChar P e char c))"
proof -
  assume inv: "line_inv c"
  have ctrlc: "line_inv (c\<lparr>input := input c @ js ''^C''\<rparr>)"
    using inv by (simp add: line_inv_def)
  show ?thesis
    unfolding onChar_def
    using inv pushInput_line_inv[OF inv, of P e True] pushInput_line_inv[OF ctrlc, of P e False]
    by (auto simp: line_inv_def substring_0 substring_from_eq split: prod.split option.split list.split)
qed

lemma chars_loop_line_inv:
  "line_inv c \<Longrightarrow> line_inv (snd (chars_loop P e chars pushed c))"
proof (induction chars arbitrary: pushed c)
  case Nil
  then show ?case by simp
next
  case (Cons char chars)
  obtain r c' where oc: "onChar P e char c = (r, c')" by (cases "onChar P e char c") auto
  have inv': "line_inv c'" using onChar_line_inv[OF Cons.prems, of P e char] by (simp add: oc)
  show ?case
  proof (cases r)
    case (Inl ex)
    then show ?thesis using inv' by (simp add: oc)
  next
    case (Inr p)
    then show ?thesis using Cons.IH[OF inv', of p] by (simp add: oc)
  qed
qed

lemma onData_line_inv: "line_inv c \<Longrightarrow> line_inv (snd (onData P e str c))"
proof -
  assume inv: "line_inv c"
  show ?thesis
  proof (cases str)
    case Nil
    then show ?thesis using inv by (simp add: onData_def)
  next
    case (Cons first rest)
    show ?thesis
    proof (cases "first = 0x1B")
      case True
      have "line_inv (snd (onEscape rest c))" using inv by (rule onEscape_line_inv)
      then show ?thesis
        unfolding Cons True onData_escape
        by (simp add: line_inv_cong[OF renderInput_frame(2) renderInput_frame(3)])
    next
      case False
      obtain r c' where cl: "chars_loop P e (code_points (normalizeInput str)) True c = (r, c')"
        by (cases "chars_loop P e (code_points (normalizeInput str)) True c") auto
      have "line_inv c'" using chars_loop_line_inv[OF inv, of P e _ True] cl
        by (metis snd_conv)
      then show ?thesis
        using False cl unfolding Cons onData_def
        by (cases r) (simp_all add: line_inv_cong[OF renderInput_frame(2) renderInput_frame(3)])
    qed
  qed
qed

lemma step_line_inv: "line_inv c \<Longrightarrow> line_inv (step P e ev c)"
proof -
  assume inv: "line_inv c"
  show ?thesis
  proof (cases ev)
    case (Data str)
    obtain r c' where od: "onData P e str c = (r, c')" by (cases "onData P e str c") auto
    have "line_inv c'" using onData_line_inv[OF inv, of P e str] by (simp add: od)
    then show ?thesis
      unfolding Data step_def by (cases r) (simp_all add: od line_inv_def)
  next
    case Resize
    then show ?thesis using inv
      by (simp add: step_def line_inv_cong[OF renderInput_frame(2) renderInput_frame(3)])
  next
    case WriteFlushed
    then show ?thesis using inv
      by (cases "pending c")
         (simp_all add: step_def line_inv_cong[OF afterFlush_line] line_inv_cong[OF drain_line])
  next
    case HandlerDone
    then show ?thesis using inv
      by (cases "pending c") (simp_all add: step_def line_inv_def startInputPhase_frame)
  next
    case HandlerFailed
    then show ?thesis using inv
      by (cases "pending c") (simp_all add: step_def line_inv_def)
  qed
qed

lemma steps_line_inv: "line_inv c \<Longrightarrow> line_inv (steps P evs c)"
  by (induction evs arbitrary: c) (auto simp: step_line_inv)

text \<open>The constructor establishes the invariant, so every state a controller
  reaches has it.\<close>

lemma line_inv_reachable: "line_inv (steps P evs (TerminalController_constructor h st))"
  by (rule steps_line_inv)
     (simp add: line_inv_def TerminalController_constructor_def startInputPhase_def write_data_def)

lemma apply_op_line_inv: "line_inv c \<Longrightarrow> line_inv (apply_op P e op c)"
  by (cases op)
     (simp_all add: onChar_line_inv onEscape_line_inv pushInput_line_inv press_up_def press_down_def)

lemma apply_ops_line_inv: "line_inv c \<Longrightarrow> line_inv (apply_ops P e ops c)"
  by (induction ops arbitrary: c) (simp_all add: apply_op_line_inv)

lemma line_inv_examples: "line_inv fresh_controller" "line_inv live_controller"
  by (simp_all add: line_inv_def fresh_controller_eq live_controller_eq)

text \<open>
  C6. Every editing operation (insertion of a character, Backspace, delete-forward,
  cursor-left, cursor-right, history recall, line push) and every event of the
  controller keeps \<open>0 \<le> cursor \<le> length(text)\<close>; the sequences are arbitrary, so
  the invariant holds after each operation. Backspace and cursor-left at cursor 0,
  and cursor-right and delete-forward at the end of the line, change nothing.
\<close>

theorem line_buffer_invariant:
  assumes "line_inv c"
  shows "line_inv (apply_ops P e ops c)
       \<and> line_inv (steps P evs c)
       \<and> (cursor c = 0 \<longrightarrow> apply_op P e Backspace c = c \<and> apply_op P e CursorLeft c = c)
       \<and> (cursor c = int (length (input c)) \<longrightarrow>
            apply_op P e CursorRight c = c \<and> apply_op P e DeleteForward c = c)"
  using assms
  by (simp add: apply_ops_line_inv steps_line_inv onChar_backspace onEscape_def)

theorem line_buffer_invariant_witness:
  "line_inv fresh_controller
   \<and> cursor fresh_controller = 0
   \<and> cursor fresh_controller = int (length (input fresh_controller))
   \<and> line_inv (apply_ops example_platform example_env
        [Insert (js ''a''), CursorLeft, DeleteForward, Backspace, HistoryPrevious, PushLine True]
        fresh_controller)
   \<and> line_inv (steps example_platform
        [(example_env, Data (js ''ls'')), (example_env, Data [0x0D]), (example_env, HandlerDone)]
        fresh_controller)
   \<and> apply_op example_platform example_env Backspace fresh_controller = fresh_controller
   \<and> apply_op example_platform example_env CursorLeft fresh_controller = fresh_controller
   \<and> apply_op example_platform example_env CursorRight fresh_controller = fresh_controller
   \<and> apply_op example_platform example_env DeleteForward fresh_controller = fresh_controller"
proof -
  have pre: "cursor fresh_controller = 0"
    "cursor fresh_controller = int (length (input fresh_controller))"
    by (simp_all add: fresh_controller_eq)
  show ?thesis
    using line_buffer_invariant[OF line_inv_examples(1), of example_platform example_env
        "[Insert (js ''a''), CursorLeft, DeleteForward, Backspace, HistoryPrevious, PushLine True]"
        "[(example_env, Data (js ''ls'')), (example_env, Data [0x0D]), (example_env, HandlerDone)]"]
      pre line_inv_examples(1)
    by blast
qed

subsection \<open>A glyph of two code units\<close>

lemma surrogate_printable:
  "is_high_surrogate hi \<Longrightarrow> 32 \<le> hi \<and> hi \<noteq> 0x7F"
proof -
  assume "is_high_surrogate hi"
  then have h: "0xD800 \<le> hi" by (simp add: is_high_surrogate_def)
  have "(32 :: 16 word) \<le> 0xD800" by simp
  then have "32 \<le> hi" using h by (rule order_trans)
  moreover have "hi \<noteq> 0x7F" using h by auto
  ultimately show ?thesis by simp
qed

text \<open>
  C2. The code does not do what the claim says for the Backspace. Inserting a
  surrogate pair by the printable path puts both code units at the cursor and
  advances the cursor by 2, the glyph's full length, as the claim says. One
  Backspace right after it removes the low surrogate only: the high surrogate stays
  in the buffer and the cursor is one past its value before the insertion, where
  the claim says that the whole glyph is removed and that the buffer and the cursor
  are as before the insertion. Only a second Backspace gives them back. The
  insertion takes the glyph as one unit (\<open>char.length\<close>); the Backspace removes one
  code unit.
\<close>

theorem glyph_insert_then_backspace:
  assumes "line_inv c" and "is_high_surrogate hi" and "is_low_surrogate lo"
  shows "input (snd (onChar P e [hi, lo] c)) =
           take (nat (cursor c)) (input c) @ [hi, lo] @ drop (nat (cursor c)) (input c)
       \<and> cursor (snd (onChar P e [hi, lo] c)) = cursor c + 2
       \<and> input (press_backspace P e (snd (onChar P e [hi, lo] c))) =
           take (nat (cursor c)) (input c) @ [hi] @ drop (nat (cursor c)) (input c)
       \<and> cursor (press_backspace P e (snd (onChar P e [hi, lo] c))) = cursor c + 1
       \<and> input (press_backspace P e (press_backspace P e (snd (onChar P e [hi, lo] c)))) = input c
       \<and> cursor (press_backspace P e (press_backspace P e (snd (onChar P e [hi, lo] c)))) = cursor c"
proof -
  define k where "k = nat (cursor c)"
  have k: "cursor c = int k" "k \<le> length (input c)"
    using assms(1) by (auto simp: line_inv_def k_def)
  have pr: "[hi, lo] \<noteq> []" "32 \<le> hd [hi, lo]" "hd [hi, lo] \<noteq> 0x7F"
    using surrogate_printable[OF assms(2)] by simp_all
  have ins: "onChar P e [hi, lo] c =
     (Inr False, c\<lparr>input := take k (input c) @ [hi, lo] @ drop k (input c), cursor := int k + 2\<rparr>)"
    using onChar_printable[OF pr, of P e c] by (simp add: k)
  have t1: "take (Suc k) (take k (input c) @ hi # lo # drop k (input c)) = take k (input c) @ [hi]"
    using k(2) by simp
  have d1: "drop (Suc (Suc k)) (take k (input c) @ hi # lo # drop k (input c)) = drop k (input c)"
    using k(2) by simp
  have b1: "press_backspace P e (snd (onChar P e [hi, lo] c)) =
      c\<lparr>input := take k (input c) @ [hi] @ drop k (input c), cursor := int k + 1\<rparr>"
    unfolding press_backspace_def onChar_backspace ins
    using t1 d1 by (simp add: nat_add_distrib)
  have t2: "take k (take k (input c) @ hi # drop k (input c)) = take k (input c)"
    using k(2) by simp
  have d2: "drop (Suc k) (take k (input c) @ hi # drop k (input c)) = drop k (input c)"
    using k(2) by simp
  have b2: "press_backspace P e (press_backspace P e (snd (onChar P e [hi, lo] c))) =
      c\<lparr>input := input c, cursor := int k\<rparr>"
    unfolding b1 unfolding press_backspace_def onChar_backspace
    using t2 d2 by (simp add: nat_add_distrib)
  have i0: "input (snd (onChar P e [hi, lo] c)) =
           take (nat (cursor c)) (input c) @ [hi, lo] @ drop (nat (cursor c)) (input c)"
    "cursor (snd (onChar P e [hi, lo] c)) = cursor c + 2"
    by (simp_all add: ins k)
  have i1: "input (press_backspace P e (snd (onChar P e [hi, lo] c))) =
           take (nat (cursor c)) (input c) @ [hi] @ drop (nat (cursor c)) (input c)"
    "cursor (press_backspace P e (snd (onChar P e [hi, lo] c))) = cursor c + 1"
    by (simp_all add: b1 k)
  have i2: "input (press_backspace P e (press_backspace P e (snd (onChar P e [hi, lo] c)))) = input c"
    "cursor (press_backspace P e (press_backspace P e (snd (onChar P e [hi, lo] c)))) = cursor c"
    by (simp_all add: b2 k)
  show ?thesis
    by (intro conjI i0 i1 i2)
qed

theorem glyph_insert_then_backspace_witness:
  "line_inv live_controller \<and> is_high_surrogate 0xD83D \<and> is_low_surrogate 0xDE00
   \<and> input (snd (onChar example_platform example_env [0xD83D, 0xDE00] live_controller))
        = [0xD83D, 0xDE00]
   \<and> input (press_backspace example_platform example_env
         (snd (onChar example_platform example_env [0xD83D, 0xDE00] live_controller))) = [0xD83D]
   \<and> input (press_backspace example_platform example_env
         (press_backspace example_platform example_env
           (snd (onChar example_platform example_env [0xD83D, 0xDE00] live_controller)))) = []"
proof -
  have s: "is_high_surrogate 0xD83D" "is_low_surrogate 0xDE00"
    by (simp_all add: is_high_surrogate_def is_low_surrogate_def)
  have v: "input live_controller = []" "cursor live_controller = 0"
    by (simp_all add: live_controller_eq)
  show ?thesis
    using glyph_insert_then_backspace[OF line_inv_examples(2) s, of example_platform example_env]
      line_inv_examples(2) s
    by (simp add: v)
qed

text \<open>The same through \<open>onData\<close>: after the glyph U+1F600 and one Backspace on the
  empty line, the buffer holds a lone high surrogate and the cursor is 1.\<close>

theorem backspace_splits_glyph:
  "input (steps example_platform
            [(example_env, Data [0xD83D, 0xDE00]), (example_env, Data [0x7F])]
            live_controller) = [0xD83D]
   \<and> cursor (steps example_platform
            [(example_env, Data [0xD83D, 0xDE00]), (example_env, Data [0x7F])]
            live_controller) = 1
   \<and> input live_controller = []
   \<and> cursor live_controller = 0"
proof -
  have cp: "code_points (normalizeInput [0xD83D, 0xDE00]) = [[0xD83D, 0xDE00]]"
    by (simp add: is_high_surrogate_def is_low_surrogate_def)
  have pr: "[0xD83D, 0xDE00 :: 16 word] \<noteq> []" "(32 :: 16 word) \<le> hd [0xD83D, 0xDE00]"
    "hd [0xD83D, 0xDE00 :: 16 word] \<noteq> 0x7F"
    by simp_all
  define c1 where "c1 = live_controller\<lparr>input := [0xD83D, 0xDE00], cursor := 2\<rparr>"
  have d1: "onData example_platform example_env [0xD83D, 0xDE00] live_controller =
      (None, renderInput example_env False False None c1)"
    unfolding onData_def list.case cp chars_loop.simps onChar_printable[OF pr]
    by (simp add: c1_def live_controller_eq)
  define c2 where "c2 = renderInput example_env False False None c1"
  have c2: "input c2 = [0xD83D, 0xDE00]" "cursor c2 = 2" "inputPhase c2"
    by (simp_all add: c2_def renderInput_frame c1_def live_controller_eq)
  define c3 where "c3 = c2\<lparr>input := [0xD83D], cursor := 1\<rparr>"
  have d2: "onData example_platform example_env [0x7F] c2 =
      (None, renderInput example_env False False None c3)"
    unfolding onData_def list.case
    by (simp add: onChar_backspace c2 c3_def)
  have "steps example_platform
            [(example_env, Data [0xD83D, 0xDE00]), (example_env, Data [0x7F])]
            live_controller = renderInput example_env False False None c3"
    by (simp add: step_def d1 c2_def[symmetric] d2)
  then show ?thesis
    by (simp add: renderInput_frame c3_def live_controller_eq)
qed

subsection \<open>Ctrl+C\<close>

lemma substring_take_drop: "substring s 0 k @ substring_from s k = s"
  by (simp add: substring_0 substring_from_eq)

lemma renderInput_eq:
  "renderInput e newLine completing inp c =
     c\<lparr>effects := effects c
          @ (if newLine then [] else [erase_line e])
          @ [TermWrite (promptText e)]
          @ [case inp of None \<Rightarrow> edited_line (input c) (cursor c) | Some s \<Rightarrow> TermWrite s]
          @ (if completing then [TermWrite [0x0D, 0x0A]] else [])\<rparr>"
  by (simp add: renderInput_def write_data_def erase_line_def edited_line_def Let_def
      split: option.split)

lemma rewind_None: "rewind P None (h, st) = (None, resetCursor h, st)"
  by (simp add: rewind_def)

lemma handler_calls_append: "handler_calls (xs @ ys) = handler_calls xs @ handler_calls ys"
  by (induction xs rule: handler_calls.induct) simp_all

lemma countWrapped_example: "countWrapped example_env 0 = 0"
  by (subst countWrapped.simps) (simp add: example_env_def)

lemma live_controller_fields:
  "inputPhase live_controller" "input live_controller = []" "cursor live_controller = 0"
  "history live_controller = history_ls_cd" "inputBuffer live_controller = []"
  "pending live_controller = NoChain"
  by (simp_all add: live_controller_eq)

lemma typed_foo_eq:
  "typed_foo =
     live_controller\<lparr>input := js ''foo'', cursor := 3,
        effects := effects live_controller
           @ [erase_line example_env, TermWrite (promptText example_env),
              edited_line (js ''foo'') 3]\<rparr>"
proof -
  have cl: "chars_loop example_platform example_env [[102], [111], [111]] True live_controller =
      (Inr False, live_controller\<lparr>input := [102, 111, 111], cursor := 3\<rparr>)"
    by (simp add: onChar_def live_controller_fields substring_0 substring_from_eq)
  show ?thesis
    unfolding typed_foo_def step_def onData_def
    by (simp add: is_high_surrogate_def is_low_surrogate_def cl renderInput_eq
        live_controller_fields del: chars_loop.simps)
qed

text \<open>
  C7. In the live phase with the line \<open>t\<close>, Ctrl+C renders \<open>t\<close> followed by \<open>^C\<close> as a
  completed line, calls no handler, and calls \<open>rewind\<close> without an argument: the
  history entries are unchanged, the browse cursor is back at the live position and
  every scratch edit is cleared. The line buffer is emptied, the phase is left and
  \<open>startInputPhase\<close> is entered.
\<close>

theorem ctrl_c_discards:
  assumes "inputPhase c"
  shows "step P e (Data [0x03]) c =
           c\<lparr>history := resetCursor (history c),
             inputPhase := False, input := [], cursor := 0, pending := AwaitFlush,
             effects := effects c @
               [erase_line e, TermWrite (promptText e),
                edited_line (input c @ js ''^C'') (cursor c), TermWrite [0x0D, 0x0A],
                TermWrite []]\<rparr>
       \<and> handler_calls (effects (step P e (Data [0x03]) c)) = handler_calls (effects c)
       \<and> (history (step P e (Data [0x03]) c), localStorage (step P e (Data [0x03]) c)) =
           snd (rewind P None (history c, localStorage c))
       \<and> entries (history (step P e (Data [0x03]) c)) = entries (history c)
       \<and> cursor_h (history (step P e (Data [0x03]) c)) = length (entries (history c))
       \<and> temporaries (history (step P e (Data [0x03]) c)) =
           replicate (Suc (length (entries (history c)))) None"
proof -
  have pi: "pushInput P e False (c\<lparr>input := input c @ [0x5E, 0x43]\<rparr>) =
      (None, c\<lparr>history := resetCursor (history c),
             inputPhase := False, input := [], cursor := 0, pending := AwaitFlush,
             effects := effects c @
               [erase_line e, TermWrite (promptText e),
                edited_line (input c @ [0x5E, 0x43]) (cursor c), TermWrite [0x0D, 0x0A],
                TermWrite []]\<rparr>)"
    using assms
    by (simp add: pushInput_def rewind_None renderInput_eq startInputPhase_def write_data_def Let_def)
  have oc: "onChar P e [0x03] c =
      (Inr True, snd (pushInput P e False (c\<lparr>input := input c @ [0x5E, 0x43]\<rparr>)))"
    by (simp add: onChar_def pi)
  have st: "step P e (Data [0x03]) c =
           c\<lparr>history := resetCursor (history c),
             inputPhase := False, input := [], cursor := 0, pending := AwaitFlush,
             effects := effects c @
               [erase_line e, TermWrite (promptText e),
                edited_line (input c @ js ''^C'') (cursor c), TermWrite [0x0D, 0x0A],
                TermWrite []]\<rparr>"
    by (simp add: step_def onData_def oc pi)
  show ?thesis
    unfolding st
    by (simp add: handler_calls_append erase_line_def edited_line_def rewind_None
        resetCursor_def replicate_append_same map_replicate_const)
qed

theorem ctrl_c_discards_witness:
  "inputPhase typed_foo \<and> input typed_foo = js ''foo''
   \<and> effects (step example_platform example_env (Data [0x03]) typed_foo) =
        effects typed_foo @
          [erase_line example_env, TermWrite (js ''$ ''),
           TermWrite (js ''foo'' @ [0x1B, 0x37] @ js ''^C'' @ [0x1B, 0x38]),
           TermWrite [0x0D, 0x0A], TermWrite []]
   \<and> handler_calls (effects (step example_platform example_env (Data [0x03]) typed_foo)) = []
   \<and> entries (history (step example_platform example_env (Data [0x03]) typed_foo)) =
        [js ''ls'', js ''cd'']
   \<and> cursor_h (history (step example_platform example_env (Data [0x03]) typed_foo)) = 2
   \<and> input (step example_platform example_env (Data [0x03]) typed_foo) = []
   \<and> \<not> inputPhase (step example_platform example_env (Data [0x03]) typed_foo)"
proof -
  have live: "inputPhase typed_foo" "input typed_foo = js ''foo''" "cursor typed_foo = 3"
    "entries (history typed_foo) = [js ''ls'', js ''cd'']"
    "handler_calls (effects typed_foo) = []"
    by (simp_all add: typed_foo_eq live_controller_eq history_ls_cd_def erase_line_def edited_line_def)
  have el: "edited_line [102, 111, 111, 94, 67] 3 =
      TermWrite (js ''foo'' @ [0x1B, 0x37] @ js ''^C'' @ [0x1B, 0x38])"
    by (simp add: edited_line_def substring_0 substring_from_eq)
  have pt: "promptText example_env = js ''$ ''" by (simp add: example_env_def)
  note t = ctrl_c_discards[OF live(1), of example_platform example_env]
  have eff: "effects (step example_platform example_env (Data [0x03]) typed_foo) =
        effects typed_foo @
          [erase_line example_env, TermWrite (js ''$ ''),
           TermWrite (js ''foo'' @ [0x1B, 0x37] @ js ''^C'' @ [0x1B, 0x38]),
           TermWrite [0x0D, 0x0A], TermWrite []]"
    by (simp add: conjunct1[OF t] live el pt)
  have rest: "input (step example_platform example_env (Data [0x03]) typed_foo) = []"
    "\<not> inputPhase (step example_platform example_env (Data [0x03]) typed_foo)"
    by (simp_all add: conjunct1[OF t])
  show ?thesis
    using t live eff rest by (simp add: resetCursor_def)
qed

subsection \<open>The pending-input queue\<close>

lemma drain_Nil:
  "inputBuffer c = [] \<Longrightarrow>
   drain e c = c\<lparr>inputPhase := True, pending := NoChain,
                 effects := effects c @ [TermWrite (promptText e), edited_line (input c) (cursor c)]\<rparr>"
  by (simp add: drain_def renderInput_eq)

lemma drain_Cons:
  "inputBuffer c = entry # rest \<Longrightarrow>
   drain e c =
     c\<lparr>inputBuffer := rest,
       pending := (if execute entry then AwaitHandler else AwaitRender),
       effects := effects c @ completed_line e entry
                  @ (if execute entry then [HandlerCall (entry_input entry)] else [])\<rparr>"
  by (simp add: drain_def renderInput_eq run_def completed_line_def Let_def)

lemma afterFlush_eq:
  "afterFlush e c = drain e (c\<lparr>effects := effects c @ fresh_line e\<rparr>)"
  by (simp add: afterFlush_def fresh_line_def write_data_def)

lemma steps_append: "steps P (xs @ ys) c = steps P ys (steps P xs c)"
  by (induction xs arbitrary: c) auto

text \<open>From the head of the drain loop to the live phase, through every entry.\<close>

lemma drain_all:
  assumes "\<not> inputPhase c" and "inputBuffer c = q"
  shows "steps P (concat (map (\<lambda>entry. if execute entry then [(e, HandlerDone), (e, WriteFlushed)]
                                         else [(e, WriteFlushed)]) q)) (drain e c) =
         c\<lparr>inputBuffer := [], inputPhase := True, pending := NoChain,
           effects := effects c @ drain_effects e q
                      @ [TermWrite (promptText e), edited_line (input c) (cursor c)]\<rparr>"
  using assms
proof (induction q arbitrary: c)
  case Nil
  then show ?case by (simp add: drain_Nil drain_effects_def)
next
  case (Cons entry rest)
  show ?case
  proof (cases "execute entry")
    case False
    define c1 where "c1 = c\<lparr>inputBuffer := rest, pending := AwaitRender,
                             effects := effects c @ completed_line e entry\<rparr>"
    have d: "drain e c = c1"
      using Cons.prems False by (simp add: drain_Cons c1_def)
    have s: "step P e WriteFlushed c1 = drain e c1"
      by (simp add: step_def c1_def)
    have ih: "steps P (concat (map (\<lambda>entry. if execute entry then [(e, HandlerDone), (e, WriteFlushed)]
                                         else [(e, WriteFlushed)]) rest)) (drain e c1) =
         c1\<lparr>inputBuffer := [], inputPhase := True, pending := NoChain,
           effects := effects c1 @ drain_effects e rest
                      @ [TermWrite (promptText e), edited_line (input c1) (cursor c1)]\<rparr>"
      using Cons.prems by (intro Cons.IH) (simp_all add: c1_def)
    show ?thesis
      using False by (simp add: d s ih) (simp add: c1_def drain_effects_def)
  next
    case True
    define c1 where "c1 = c\<lparr>inputBuffer := rest, pending := AwaitHandler,
                             effects := effects c @ completed_line e entry
                                        @ [HandlerCall (entry_input entry)]\<rparr>"
    define c2 where "c2 = c1\<lparr>pending := AwaitFlush, effects := effects c1 @ [TermWrite []]\<rparr>"
    define c3 where "c3 = c2\<lparr>effects := effects c2 @ fresh_line e\<rparr>"
    have d: "drain e c = c1"
      using Cons.prems True by (simp add: drain_Cons c1_def)
    have s1: "step P e HandlerDone c1 = c2"
      using Cons.prems by (simp add: step_def c1_def c2_def startInputPhase_def write_data_def)
    have s2: "step P e WriteFlushed c2 = drain e c3"
      by (simp add: step_def c2_def c3_def afterFlush_eq)
    have ih: "steps P (concat (map (\<lambda>entry. if execute entry then [(e, HandlerDone), (e, WriteFlushed)]
                                         else [(e, WriteFlushed)]) rest)) (drain e c3) =
         c3\<lparr>inputBuffer := [], inputPhase := True, pending := NoChain,
           effects := effects c3 @ drain_effects e rest
                      @ [TermWrite (promptText e), edited_line (input c3) (cursor c3)]\<rparr>"
      using Cons.prems by (intro Cons.IH) (simp_all add: c1_def c2_def c3_def)
    show ?thesis
      using True by (simp add: d s1 s2 ih) (simp add: c1_def c2_def c3_def drain_effects_def)
  qed
qed

text \<open>From the head of the drain loop to the first entry marked execute.\<close>

lemma drain_to_execute:
  assumes "inputBuffer c = pre @ entry # rest"
    and "list_all (\<lambda>x. \<not> execute x) pre" and "execute entry"
  shows "steps P (replicate (length pre) (e, WriteFlushed)) (drain e c) =
         c\<lparr>inputBuffer := rest, pending := AwaitHandler,
           effects := effects c @ concat (map (completed_line e) (pre @ [entry]))
                      @ [HandlerCall (entry_input entry)]\<rparr>"
  using assms
proof (induction pre arbitrary: c)
  case Nil
  then show ?case by (simp add: drain_Cons)
next
  case (Cons x pre)
  define c1 where "c1 = c\<lparr>inputBuffer := pre @ entry # rest, pending := AwaitRender,
                           effects := effects c @ completed_line e x\<rparr>"
  have d: "drain e c = c1"
    using Cons.prems by (simp add: drain_Cons c1_def)
  have s: "step P e WriteFlushed c1 = drain e c1"
    by (simp add: step_def c1_def)
  have ih: "steps P (replicate (length pre) (e, WriteFlushed)) (drain e c1) =
         c1\<lparr>inputBuffer := rest, pending := AwaitHandler,
           effects := effects c1 @ concat (map (completed_line e) (pre @ [entry]))
                      @ [HandlerCall (entry_input entry)]\<rparr>"
    using Cons.prems by (intro Cons.IH) (simp_all add: c1_def)
  show ?case
    by (simp add: d s ih) (simp add: c1_def)
qed

lemma handler_calls_drain_effects:
  "handler_calls (drain_effects e q) = map entry_input (filter execute q)"
  by (induction q)
     (simp_all add: drain_effects_def completed_line_def fresh_line_def handler_calls_append)

lemma pushInput_not_live:
  assumes "\<not> inputPhase c" and "fst (pushInput P e exec c) = None"
  shows "inputBuffer (snd (pushInput P e exec c)) =
           inputBuffer c @ [InputBufferEntry (input c) exec]"
    and "effects (snd (pushInput P e exec c)) = effects c"
    and "pending (snd (pushInput P e exec c)) = pending c"
    and "\<not> inputPhase (snd (pushInput P e exec c))"
proof -
  obtain r h' st' where
    rw: "rewind P (if exec then Some (input c) else None) (history c, localStorage c) = (r, h', st')"
    by (metis prod_cases3)
  have "r = None"
    using assms(2) by (cases r) (simp_all add: pushInput_def rw)
  then have p: "pushInput P e exec c =
      (None, c\<lparr>history := h', localStorage := st',
               inputBuffer := inputBuffer c @ [InputBufferEntry (input c) exec],
               input := [], cursor := 0\<rparr>)"
    using assms(1) by (simp add: pushInput_def rw Let_def)
  show "inputBuffer (snd (pushInput P e exec c)) =
           inputBuffer c @ [InputBufferEntry (input c) exec]"
    and "effects (snd (pushInput P e exec c)) = effects c"
    and "pending (snd (pushInput P e exec c)) = pending c"
    and "\<not> inputPhase (snd (pushInput P e exec c))"
    using assms(1) by (simp_all add: p)
qed

lemma constructed_eq:
  "TerminalController_constructor h st =
     \<lparr>history = h, inputPhase = False, input = [], inputBuffer = [], cursor = 0,
      localStorage = st, pending = AwaitFlush, effects = [TermWrite []]\<rparr>"
  by (simp add: TerminalController_constructor_def startInputPhase_def write_data_def)

lemma typed_ahead_fields:
  "\<not> inputPhase typed_ahead"
  "pending typed_ahead = AwaitFlush"
  "inputBuffer typed_ahead =
     [InputBufferEntry (js ''a^C'') False, InputBufferEntry (js ''b'') True,
      InputBufferEntry (js ''c^C'') False]"
  "effects typed_ahead = [TermWrite []]"
  "input typed_ahead = []"
  "cursor typed_ahead = 0"
  "entries (history typed_ahead) = [js ''ls'', js ''cd'', js ''b'']"
  by (simp_all add: typed_ahead_def constructed_eq step_def onData_def onChar_def pushInput_def
      rewind_def resetCursor_def is_high_surrogate_def is_low_surrogate_def
      substring_0 substring_from_eq trim_def is_js_space_def js_at_def
      history_ls_cd_def example_platform_def Let_def)

text \<open>
  What the queue does with the lines that reach it. A line whose \<open>pushInput\<close>
  returns while the controller is not live is put at the back of the queue, and
  nothing is rendered or run for it then. Entering the input phase takes the queue
  from the front: every entry before the first one marked execute is rendered as a
  completed line, in queue order; the first entry marked execute is rendered and
  handed to the handler, and the draining stops there with the rest of the queue in
  place: a further flush drains nothing while the handler runs. When each handler
  ends and the input phase is entered again, the whole queue is rendered in its
  order, the entries marked execute are handed to the handler in that order, and
  the phase becomes live on the empty queue.
\<close>

theorem pending_input_fifo:
  "(\<not> inputPhase c \<and> fst (pushInput P e exec c) = None \<longrightarrow>
      inputBuffer (snd (pushInput P e exec c)) = inputBuffer c @ [InputBufferEntry (input c) exec]
      \<and> effects (snd (pushInput P e exec c)) = effects c
      \<and> pending (snd (pushInput P e exec c)) = pending c
      \<and> \<not> inputPhase (snd (pushInput P e exec c)))
   \<and> (pending c = AwaitFlush \<and> inputBuffer c = pre @ entry # rest
        \<and> list_all (\<lambda>x. \<not> execute x) pre \<and> execute entry \<longrightarrow>
      steps P (replicate (Suc (length pre)) (e, WriteFlushed)) c =
        c\<lparr>inputBuffer := rest, pending := AwaitHandler,
          effects := effects c @ fresh_line e @ concat (map (completed_line e) (pre @ [entry]))
                     @ [HandlerCall (entry_input entry)]\<rparr>)
   \<and> (pending c = AwaitHandler \<longrightarrow> step P e WriteFlushed c = c)
   \<and> (pending c = AwaitFlush \<and> \<not> inputPhase c \<longrightarrow>
      steps P (drain_events e (inputBuffer c)) c =
        c\<lparr>inputBuffer := [], inputPhase := True, pending := NoChain,
          effects := effects c @ fresh_line e @ drain_effects e (inputBuffer c)
                     @ [TermWrite (promptText e), edited_line (input c) (cursor c)]\<rparr>)
   \<and> handler_calls (drain_effects e (inputBuffer c)) =
        map entry_input (filter execute (inputBuffer c))"
proof (intro conjI impI)
  assume a: "\<not> inputPhase c \<and> fst (pushInput P e exec c) = None"
  show "inputBuffer (snd (pushInput P e exec c)) = inputBuffer c @ [InputBufferEntry (input c) exec]"
    "effects (snd (pushInput P e exec c)) = effects c"
    "pending (snd (pushInput P e exec c)) = pending c"
    "\<not> inputPhase (snd (pushInput P e exec c))"
    using pushInput_not_live[of c P e exec] a by simp_all
next
  assume a: "pending c = AwaitFlush \<and> inputBuffer c = pre @ entry # rest
        \<and> list_all (\<lambda>x. \<not> execute x) pre \<and> execute entry"
  define c0 where "c0 = c\<lparr>effects := effects c @ fresh_line e\<rparr>"
  have s: "step P e WriteFlushed c = drain e c0"
    using a by (simp add: step_def afterFlush_eq c0_def)
  have "steps P (replicate (length pre) (e, WriteFlushed)) (drain e c0) =
         c0\<lparr>inputBuffer := rest, pending := AwaitHandler,
           effects := effects c0 @ concat (map (completed_line e) (pre @ [entry]))
                      @ [HandlerCall (entry_input entry)]\<rparr>"
    using a by (intro drain_to_execute) (simp_all add: c0_def)
  then show "steps P (replicate (Suc (length pre)) (e, WriteFlushed)) c =
        c\<lparr>inputBuffer := rest, pending := AwaitHandler,
          effects := effects c @ fresh_line e @ concat (map (completed_line e) (pre @ [entry]))
                     @ [HandlerCall (entry_input entry)]\<rparr>"
    by (simp add: s) (simp add: c0_def)
next
  assume "pending c = AwaitHandler"
  then show "step P e WriteFlushed c = c" by (simp add: step_def)
next
  assume a: "pending c = AwaitFlush \<and> \<not> inputPhase c"
  define c0 where "c0 = c\<lparr>effects := effects c @ fresh_line e\<rparr>"
  have s: "step P e WriteFlushed c = drain e c0"
    using a by (simp add: step_def afterFlush_eq c0_def)
  have "steps P (concat (map (\<lambda>entry. if execute entry then [(e, HandlerDone), (e, WriteFlushed)]
                                         else [(e, WriteFlushed)]) (inputBuffer c))) (drain e c0) =
         c0\<lparr>inputBuffer := [], inputPhase := True, pending := NoChain,
           effects := effects c0 @ drain_effects e (inputBuffer c)
                      @ [TermWrite (promptText e), edited_line (input c0) (cursor c0)]\<rparr>"
    using a by (intro drain_all) (simp_all add: c0_def)
  then show "steps P (drain_events e (inputBuffer c)) c =
        c\<lparr>inputBuffer := [], inputPhase := True, pending := NoChain,
          effects := effects c @ fresh_line e @ drain_effects e (inputBuffer c)
                     @ [TermWrite (promptText e), edited_line (input c) (cursor c)]\<rparr>"
    by (simp add: drain_events_def s) (simp add: c0_def)
next
  show "handler_calls (drain_effects e (inputBuffer c)) =
        map entry_input (filter execute (inputBuffer c))"
    by (rule handler_calls_drain_effects)
qed

theorem pending_input_fifo_witness:
  "\<not> inputPhase typed_ahead
   \<and> fst (pushInput example_platform example_env False typed_ahead) = None
   \<and> inputBuffer (snd (pushInput example_platform example_env False typed_ahead)) =
        inputBuffer typed_ahead @ [InputBufferEntry [] False]
   \<and> pending typed_ahead = AwaitFlush
   \<and> inputBuffer typed_ahead =
        [InputBufferEntry (js ''a^C'') False] @ InputBufferEntry (js ''b'') True
          # [InputBufferEntry (js ''c^C'') False]
   \<and> list_all (\<lambda>x. \<not> execute x) [InputBufferEntry (js ''a^C'') False]
   \<and> execute (InputBufferEntry (js ''b'') True)
   \<and> effects (steps example_platform (replicate 2 (example_env, WriteFlushed)) typed_ahead) =
        [TermWrite [],
         TermWrite (js ''$ ''), TermWrite (js ''a^C''), TermWrite [0x0D, 0x0A],
         TermWrite (js ''$ ''), TermWrite (js ''b''), TermWrite [0x0D, 0x0A],
         HandlerCall (js ''b'')]
   \<and> inputBuffer (steps example_platform (replicate 2 (example_env, WriteFlushed)) typed_ahead) =
        [InputBufferEntry (js ''c^C'') False]
   \<and> pending (steps example_platform (replicate 2 (example_env, WriteFlushed)) typed_ahead) =
        AwaitHandler
   \<and> step example_platform example_env WriteFlushed
        (steps example_platform (replicate 2 (example_env, WriteFlushed)) typed_ahead) =
        steps example_platform (replicate 2 (example_env, WriteFlushed)) typed_ahead
   \<and> inputPhase (steps example_platform (drain_events example_env (inputBuffer typed_ahead))
        typed_ahead)
   \<and> handler_calls (effects (steps example_platform
        (drain_events example_env (inputBuffer typed_ahead)) typed_ahead)) = [js ''b'']"
proof -
  note f = typed_ahead_fields
  have pu: "fst (pushInput example_platform example_env False typed_ahead) = None"
    by (simp add: pushInput_def rewind_None Let_def)
  have q: "inputBuffer typed_ahead =
        [InputBufferEntry (js ''a^C'') False] @ InputBufferEntry (js ''b'') True
          # [InputBufferEntry (js ''c^C'') False]"
    by (simp add: f)
  have pt: "promptText example_env = js ''$ ''" "fresh_line example_env = []"
    by (simp_all add: example_env_def fresh_line_def)
  note t = pending_input_fifo[of typed_ahead example_platform example_env False
      "[InputBufferEntry (js ''a^C'') False]" "InputBufferEntry (js ''b'') True"
      "[InputBufferEntry (js ''c^C'') False]"]
  have a: "inputBuffer (snd (pushInput example_platform example_env False typed_ahead)) =
        inputBuffer typed_ahead @ [InputBufferEntry [] False]"
    using t f(1) pu by (simp add: f(5))
  have b: "steps example_platform (replicate 2 (example_env, WriteFlushed)) typed_ahead =
        typed_ahead\<lparr>inputBuffer := [InputBufferEntry (js ''c^C'') False], pending := AwaitHandler,
          effects := [TermWrite [],
         TermWrite (js ''$ ''), TermWrite (js ''a^C''), TermWrite [0x0D, 0x0A],
         TermWrite (js ''$ ''), TermWrite (js ''b''), TermWrite [0x0D, 0x0A],
         HandlerCall (js ''b'')]\<rparr>"
    using t f(2) q by (simp add: f(4) pt completed_line_def numeral_2_eq_2)
  have pb: "pending (steps example_platform (replicate 2 (example_env, WriteFlushed)) typed_ahead)
      = AwaitHandler"
    by (simp add: b)
  have c: "step example_platform example_env WriteFlushed
        (steps example_platform (replicate 2 (example_env, WriteFlushed)) typed_ahead) =
        steps example_platform (replicate 2 (example_env, WriteFlushed)) typed_ahead"
    using pending_input_fifo[of
        "steps example_platform (replicate 2 (example_env, WriteFlushed)) typed_ahead"
        example_platform example_env] pb by blast
  have d: "steps example_platform (drain_events example_env (inputBuffer typed_ahead)) typed_ahead =
        typed_ahead\<lparr>inputBuffer := [], inputPhase := True, pending := NoChain,
          effects := effects typed_ahead @ fresh_line example_env
                     @ drain_effects example_env (inputBuffer typed_ahead)
                     @ [TermWrite (promptText example_env),
                        edited_line (input typed_ahead) (cursor typed_ahead)]\<rparr>"
    using t f(1,2) by blast
  have hc: "handler_calls (drain_effects example_env (inputBuffer typed_ahead)) = [js ''b'']"
    using t by (simp add: f(3))
  have e: "inputPhase (steps example_platform (drain_events example_env (inputBuffer typed_ahead))
        typed_ahead)"
    "handler_calls (effects (steps example_platform
        (drain_events example_env (inputBuffer typed_ahead)) typed_ahead)) = [js ''b'']"
    by (simp_all add: d handler_calls_append hc f(4) pt edited_line_def)
  show ?thesis
    using f(1,2) pu a q b c e by simp
qed

subsection \<open>A failing write to the storage, seen from the controller\<close>

text \<open>With a full storage, Enter on a new line lets the exception out of \<open>onData\<close>:
  the line stays in the buffer, nothing is rendered and no handler is called.\<close>

lemma enter_on_full_storage:
  "step full_storage example_env (Data [0x0D]) typed_foo =
     typed_foo\<lparr>history := (history typed_foo)\<lparr>entries := [js ''ls'', js ''cd'', js ''foo'']\<rparr>,
               effects := effects typed_foo @ [Uncaught DOMException]\<rparr>"
proof -
  have h: "history typed_foo = history_ls_cd" "input typed_foo = [102, 111, 111]"
    "localStorage typed_foo = stored_ls_cd"
    by (simp_all add: typed_foo_eq live_controller_eq)
  have rw: "rewind full_storage (Some [102, 111, 111]) (history_ls_cd, stored_ls_cd) =
      (Some DOMException, history_ls_cd\<lparr>entries := [js ''ls'', js ''cd'', js ''foo'']\<rparr>, stored_ls_cd)"
    by (simp add: rewind_def history_ls_cd_def trim_def is_js_space_def js_at_def
        full_storage_def example_platform_def Let_def)
  show ?thesis
    by (simp add: step_def onData_def onChar_def pushInput_def h rw)
qed

lemma typed_b_not_live_eq:
  "typed_b_not_live =
     \<lparr>history = history_ls_cd, inputPhase = False, input = js ''b'', inputBuffer = [], cursor = 1,
      localStorage = stored_ls_cd, pending = AwaitFlush, effects = [TermWrite []]\<rparr>"
  by (simp add: typed_b_not_live_def constructed_eq step_def onData_def onChar_def
      substring_0 substring_from_eq)

text \<open>
  C8. The code does not do what the claim says for a line entered while the
  controller is not live when the history cannot be written. \<open>pushInput\<close> calls
  \<open>history.rewind\<close> first, and the exception of the failing \<open>setItem\<close> (the defect
  of C1) leaves \<open>pushInput\<close> and \<open>onData\<close> before the line is put in the queue: the
  line is neither queued, rendered as a completed line nor handed to the handler,
  and it stays in the line buffer, where the claim says that every line completed
  outside the live phase is drained in order. The lines that reach the queue are
  drained as the claim says (\<open>pending_input_fifo\<close>).
\<close>

theorem enter_lost_on_storage_failure:
  assumes "\<not> inputPhase c"
    and "persistent (history c) = Some key"
    and "\<not> list_all is_js_space (input c)"
    and "last_entry (history c) \<noteq> Some (input c)"
    and "setItem P key
           (JSON_stringify P (keep_last (size_h (history c)) (entries (history c) @ [input c])))
           (localStorage c) = Inl ex"
  shows "step P e (Data [0x0D]) c =
           c\<lparr>history := (history c)\<lparr>entries :=
                  keep_last (size_h (history c)) (entries (history c) @ [input c])\<rparr>,
             effects := effects c @ [Uncaught ex]\<rparr>"
proof -
  have rw: "rewind P (Some (input c)) (history c, localStorage c) =
      (Some ex, (history c)\<lparr>entries :=
          keep_last (size_h (history c)) (entries (history c) @ [input c])\<rparr>, localStorage c)"
    using assms(2-5) by (rule rewind_throws)
  have pi: "pushInput P e True c =
      (Some ex, c\<lparr>history := (history c)\<lparr>entries :=
          keep_last (size_h (history c)) (entries (history c) @ [input c])\<rparr>\<rparr>)"
    by (simp add: pushInput_def rw)
  have oc: "onChar P e [0x0D] c =
      (Inl ex, c\<lparr>history := (history c)\<lparr>entries :=
          keep_last (size_h (history c)) (entries (history c) @ [input c])\<rparr>\<rparr>)"
    by (simp add: onChar_def pi)
  show ?thesis
    by (simp add: step_def onData_def oc)
qed

theorem enter_lost_on_storage_failure_witness:
  "\<not> inputPhase typed_b_not_live
   \<and> persistent (history typed_b_not_live) = Some history_key
   \<and> input typed_b_not_live = js ''b''
   \<and> inputBuffer (step full_storage example_env (Data [0x0D]) typed_b_not_live) = []
   \<and> input (step full_storage example_env (Data [0x0D]) typed_b_not_live) = js ''b''
   \<and> effects (step full_storage example_env (Data [0x0D]) typed_b_not_live) =
        [TermWrite [], Uncaught DOMException]
   \<and> effects (steps full_storage
        [(example_env, Data [0x0D]), (example_env, WriteFlushed)] typed_b_not_live) =
        [TermWrite [], Uncaught DOMException, TermWrite (js ''$ ''),
         TermWrite (js ''b'' @ [0x1B, 0x37, 0x1B, 0x38])]
   \<and> inputPhase (steps full_storage
        [(example_env, Data [0x0D]), (example_env, WriteFlushed)] typed_b_not_live)"
proof -
  note f = typed_b_not_live_eq
  have pre: "\<not> inputPhase typed_b_not_live"
    "persistent (history typed_b_not_live) = Some history_key"
    "\<not> list_all is_js_space (input typed_b_not_live)"
    "last_entry (history typed_b_not_live) \<noteq> Some (input typed_b_not_live)"
    "setItem full_storage history_key
       (JSON_stringify full_storage (keep_last (size_h (history typed_b_not_live))
          (entries (history typed_b_not_live) @ [input typed_b_not_live])))
       (localStorage typed_b_not_live) = Inl DOMException"
    by (simp_all add: f history_ls_cd_def is_js_space_def last_entry_def js_at_def
        full_storage_def)
  note t = enter_lost_on_storage_failure[OF pre, of example_env]
  have inp: "input typed_b_not_live = js ''b''" by (simp add: f)
  have one: "inputBuffer (step full_storage example_env (Data [0x0D]) typed_b_not_live) = []"
    "input (step full_storage example_env (Data [0x0D]) typed_b_not_live) = js ''b''"
    "effects (step full_storage example_env (Data [0x0D]) typed_b_not_live) =
        [TermWrite [], Uncaught DOMException]"
    "pending (step full_storage example_env (Data [0x0D]) typed_b_not_live) = AwaitFlush"
    "cursor (step full_storage example_env (Data [0x0D]) typed_b_not_live) = 1"
    unfolding t by (simp_all add: f)
  define c1 where "c1 = step full_storage example_env (Data [0x0D]) typed_b_not_live"
  have c1: "inputBuffer c1 = []" "input c1 = js ''b''" "cursor c1 = 1" "pending c1 = AwaitFlush"
    "effects c1 = [TermWrite [], Uncaught DOMException]"
    using one by (simp_all add: c1_def)
  have fl: "fresh_line example_env = []" "promptText example_env = js ''$ ''"
    by (simp_all add: fresh_line_def example_env_def)
  have wf: "step full_storage example_env WriteFlushed c1 = drain example_env c1"
    using c1(4) by (simp add: step_def afterFlush_eq fl)
  have dr: "drain example_env c1 =
      c1\<lparr>inputPhase := True, pending := NoChain,
         effects := [TermWrite [], Uncaught DOMException, TermWrite (js ''$ ''),
                     TermWrite (js ''b'' @ [0x1B, 0x37, 0x1B, 0x38])]\<rparr>"
    using c1 by (simp add: drain_Nil edited_line_def substring_0 substring_from_eq fl)
  have two: "steps full_storage
        [(example_env, Data [0x0D]), (example_env, WriteFlushed)] typed_b_not_live =
      c1\<lparr>inputPhase := True, pending := NoChain,
         effects := [TermWrite [], Uncaught DOMException, TermWrite (js ''$ ''),
                     TermWrite (js ''b'' @ [0x1B, 0x37, 0x1B, 0x38])]\<rparr>"
    using wf dr by (simp add: c1_def)
  show ?thesis
    unfolding two using pre(1,2) inp one(1,2,3) by simp
qed

end
